theory Spec2Isabelle
  imports Main "HOL-Library.Multiset"
begin

section \<open>Values exchanged with the session provider\<close>

text \<open>
  The script \<^verbatim>\<open>cisco_audit.py\<close> talks to devices through netmiko. With
  \<^verbatim>\<open>use_textfsm=True\<close> a command returns either a list of records (dictionaries
  from field names to strings) or, when no template parsed the output, the raw text.
  A cell of an output row is a string or Python's \<^verbatim>\<open>None\<close>.
\<close>

datatype pyval = PNone | PStr string

type_synonym pydict = "(string \<times> string) list"

type_synonym row = "(string \<times> pyval) list"

datatype cmd_output = Raw string | Parsed "pydict list"

text \<open>
  Exceptions are values. Only subclasses of \<^verbatim>\<open>Exception\<close> are modelled; the string is
  what \<^verbatim>\<open>str(e)\<close> prints.
\<close>

datatype exc_class =
    NetmikoAuthenticationException
  | NetmikoTimeoutException
  | KeyError
  | AttributeError
  | TypeError
  | ValueError
  | IndexError
  | OtherException

datatype py_exception = Raise exc_class string

fun exc_class_of :: "py_exception \<Rightarrow> exc_class" where
  "exc_class_of (Raise c m) = c"

fun exc_str :: "py_exception \<Rightarrow> string" where
  "exc_str (Raise c m) = m"

text \<open>
  A live session (\<^verbatim>\<open>net_connect\<close>): the detected OS family, the answer to each command
  and the prompt. Sending a command and reading the prompt can raise.
\<close>

record session =
  device_type :: string
  send_command :: "string \<Rightarrow> py_exception + cmd_output"
  find_prompt :: "py_exception + string"

text \<open>
  \<^verbatim>\<open>ConnectHandler(**base_device)\<close>: host, username, password and secret go in
  (\<^verbatim>\<open>device_type\<close> is always \<^verbatim>\<open>'autodetect'\<close> and the timeout 30); a session or an
  exception comes out.
\<close>

type_synonym connect_handler =
  "string \<Rightarrow> string \<Rightarrow> string \<Rightarrow> string \<Rightarrow> py_exception + session"

section \<open>Dictionary and string helpers of Python\<close>

definition quote :: "string \<Rightarrow> string" where
  "quote k = [CHR 0x27] @ k @ [CHR 0x27]"

text \<open>\<^verbatim>\<open>d[k]\<close> raises \<^verbatim>\<open>KeyError(k)\<close> on a missing key; \<^verbatim>\<open>d.get(k)\<close> gives None.\<close>

definition subscript :: "(string \<times> 'v) list \<Rightarrow> string \<Rightarrow> py_exception + 'v" where
  "subscript d k = (case map_of d k of None \<Rightarrow> Inl (Raise KeyError (quote k)) | Some v \<Rightarrow> Inr v)"

definition dict_get :: "pydict \<Rightarrow> string \<Rightarrow> pyval" where
  "dict_get d k = (case map_of d k of None \<Rightarrow> PNone | Some v \<Rightarrow> PStr v)"

definition dict_get_default :: "pydict \<Rightarrow> string \<Rightarrow> string \<Rightarrow> pyval" where
  "dict_get_default d k dflt = (case map_of d k of None \<Rightarrow> PStr dflt | Some v \<Rightarrow> PStr v)"

text \<open>
  \<^verbatim>\<open>s.replace("#", "")\<close> deletes every \<^verbatim>\<open>#\<close>. \<^verbatim>\<open>s.strip()\<close> removes, at both ends, every
  character for which \<^verbatim>\<open>str.isspace\<close> holds: U+0009 to U+000D, U+001C to U+0020, U+0085,
  U+00A0, U+1680, U+2000 to U+200A, U+2028, U+2029, U+202F, U+205F and U+3000. A string is
  the list of the bytes of its UTF-8 encoding, so each of these characters is a sequence of
  one, two or three bytes, and stripping removes whole sequences.
\<close>

definition whitespace :: "string list" where
  "whitespace =
    [[CHR 0x09], [CHR 0x0A], [CHR 0x0B], [CHR 0x0C], [CHR 0x0D],
     [CHR 0x1C], [CHR 0x1D], [CHR 0x1E], [CHR 0x1F], [CHR 0x20],
     [CHR 0xC2, CHR 0x85], [CHR 0xC2, CHR 0xA0],
     [CHR 0xE1, CHR 0x9A, CHR 0x80],
     [CHR 0xE2, CHR 0x80, CHR 0x80], [CHR 0xE2, CHR 0x80, CHR 0x81],
     [CHR 0xE2, CHR 0x80, CHR 0x82], [CHR 0xE2, CHR 0x80, CHR 0x83],
     [CHR 0xE2, CHR 0x80, CHR 0x84], [CHR 0xE2, CHR 0x80, CHR 0x85],
     [CHR 0xE2, CHR 0x80, CHR 0x86], [CHR 0xE2, CHR 0x80, CHR 0x87],
     [CHR 0xE2, CHR 0x80, CHR 0x88], [CHR 0xE2, CHR 0x80, CHR 0x89],
     [CHR 0xE2, CHR 0x80, CHR 0x8A],
     [CHR 0xE2, CHR 0x80, CHR 0xA8], [CHR 0xE2, CHR 0x80, CHR 0xA9],
     [CHR 0xE2, CHR 0x80, CHR 0xAF], [CHR 0xE2, CHR 0x81, CHR 0x9F],
     [CHR 0xE3, CHR 0x80, CHR 0x80]]"

definition remove_hash :: "string \<Rightarrow> string" where
  "remove_hash s = filter (\<lambda>c. c \<noteq> CHR ''#'') s"

text \<open>The rest of \<open>s\<close> after the first of the sequences \<open>ts\<close> that \<open>s\<close> starts with.\<close>

fun drop_token :: "string list \<Rightarrow> string \<Rightarrow> string option" where
  "drop_token [] s = None"
| "drop_token (t # ts) s =
     (if t \<noteq> [] \<and> take (length t) s = t then Some (drop (length t) s) else drop_token ts s)"

lemma drop_token_shorter: "drop_token ts s = Some rest \<Longrightarrow> length rest < length s"
proof (induction ts)
  case Nil
  then show ?case by simp
next
  case (Cons t ts)
  show ?case
  proof (cases "t \<noteq> [] \<and> take (length t) s = t")
    case True
    with Cons.prems have r: "rest = drop (length t) s" by simp
    from True have a: "take (length t) s = t" by simp
    have "length (take (length t) s) = min (length s) (length t)" by (rule length_take)
    then have "length t = min (length s) (length t)" unfolding a .
    then have le: "length t \<le> length s" by linarith
    from True have pos: "0 < length t" by simp
    show ?thesis unfolding r length_drop using le pos by linarith
  next
    case False
    with Cons show ?thesis by auto
  qed
qed

function lstrip_tokens :: "string list \<Rightarrow> string \<Rightarrow> string" where
  "lstrip_tokens ts s =
     (case drop_token ts s of None \<Rightarrow> s | Some rest \<Rightarrow> lstrip_tokens ts rest)"
  by pat_completeness auto
termination
  by (relation "measure (\<lambda>(ts, s). length s)") (auto dest: drop_token_shorter)

definition lstrip :: "string \<Rightarrow> string" where
  "lstrip s = lstrip_tokens whitespace s"

definition rstrip :: "string \<Rightarrow> string" where
  "rstrip s = rev (lstrip_tokens (map rev whitespace) (rev s))"

definition strip :: "string \<Rightarrow> string" where
  "strip s = rstrip (lstrip s)"

section \<open>Command catalog\<close>

definition COMMAND_MAP :: "(string \<times> (string \<times> string) list) list" where
  "COMMAND_MAP =
    [(''cisco_ios'',
        [(''version'', ''show version''),
         (''interfaces'', ''show ip interface brief''),
         (''cdp'', ''show cdp neighbors detail'')]),
     (''cisco_nxos'',
        [(''version'', ''show version''),
         (''interfaces'', ''show ip interface brief''),
         (''cdp'', ''show cdp neighbors detail'')]),
     (''cisco_asa'',
        [(''version'', ''show version''),
         (''interfaces'', ''show interface ip brief'')])]"

section \<open>The CSV writer\<close>

text \<open>The column names \<^verbatim>\<open>main\<close> gives the writer, and its \<^verbatim>\<open>restval\<close>.\<close>

definition fieldnames :: "string list" where
  "fieldnames =
    [''hostname'', ''ip_address'', ''model'', ''version'', ''status'', ''interface'',
     ''interface_ip'', ''interface_status'', ''protocol_status'', ''neighbor_device'',
     ''neighbor_platform'', ''neighbor_interface'']"

definition restval :: pyval where
  "restval = PStr ''N/A''"

text \<open>
  \<^verbatim>\<open>csv.DictWriter.writerow\<close>: a key outside \<^verbatim>\<open>fieldnames\<close> raises ValueError; otherwise
  each column is \<^verbatim>\<open>row.get(key, restval)\<close>, and None is written as the empty string.
\<close>

definition wrong_fields :: "row \<Rightarrow> string list" where
  "wrong_fields r = filter (\<lambda>k. k \<notin> set fieldnames) (map fst r)"

definition csv_field :: "pyval \<Rightarrow> string" where
  "csv_field v = (case v of PNone \<Rightarrow> [] | PStr s \<Rightarrow> s)"

definition row_get :: "row \<Rightarrow> string \<Rightarrow> pyval" where
  "row_get r k = (case map_of r k of None \<Rightarrow> restval | Some v \<Rightarrow> v)"

definition dict_to_list :: "row \<Rightarrow> string list" where
  "dict_to_list r = map (\<lambda>k. csv_field (row_get r k)) fieldnames"

section \<open>Effects of one device session\<close>

text \<open>
  What one pass through the worker's loop body does, in order: the session is opened and
  closed, commands are sent, the prompt is read, rows are handed to the writer, and the
  \<^verbatim>\<open>finally\<close> block reports to the queue and to the progress bar.
\<close>

datatype event =
    Connected
  | Sent string
  | Prompt
  | Disconnected
  | Wrote row
  | TaskDone
  | PbarUpdate

text \<open>A computation leaves a trace and either raises or returns.\<close>

type_synonym 'a comp = "event list \<times> (py_exception + 'a)"

definition return_c :: "'a \<Rightarrow> 'a comp" where
  "return_c x = ([], Inr x)"

definition raise_c :: "py_exception \<Rightarrow> 'a comp" where
  "raise_c e = ([], Inl e)"

definition emit :: "event \<Rightarrow> unit comp" where
  "emit ev = ([ev], Inr ())"

definition then_c :: "'a comp \<Rightarrow> ('a \<Rightarrow> 'b comp) \<Rightarrow> 'b comp" where
  "then_c m f =
    (case m of
       (evs, Inl e) \<Rightarrow> (evs, Inl e)
     | (evs, Inr x) \<Rightarrow> (case f x of (evs', r) \<Rightarrow> (evs @ evs', r)))"

definition lift_c :: "py_exception + 'a \<Rightarrow> 'a comp" where
  "lift_c r = ([], r)"

text \<open>\<^verbatim>\<open>csv_writer.writerow(row)\<close> as the worker sees it.\<close>

definition writerow :: "row \<Rightarrow> unit comp" where
  "writerow r =
    (if wrong_fields r \<noteq> []
     then raise_c (Raise ValueError (''dict contains fields not in fieldnames''))
     else emit (Wrote r))"

text \<open>\<^verbatim>\<open>net_connect.send_command(cmd, use_textfsm=True)\<close>: the command goes out, then the
  answer or an exception comes back.\<close>

definition run_command :: "session \<Rightarrow> string \<Rightarrow> cmd_output comp" where
  "run_command net_connect cmd = ([Sent cmd], send_command net_connect cmd)"

definition read_prompt :: "session \<Rightarrow> string comp" where
  "read_prompt net_connect = ([Prompt], find_prompt net_connect)"

text \<open>Truthiness of a command's answer (\<^verbatim>\<open>not version_data\<close>).\<close>

fun is_empty_output :: "cmd_output \<Rightarrow> bool" where
  "is_empty_output (Raw s) = (s = [])"
| "is_empty_output (Parsed rs) = (rs = [])"

text \<open>
  Iterating or indexing an answer: parsed output yields its records, raw text yields
  one-character strings.
\<close>

datatype item = StrItem string | DictItem pydict

fun items_of :: "cmd_output \<Rightarrow> item list" where
  "items_of (Raw s) = map (\<lambda>c. StrItem [c]) s"
| "items_of (Parsed rs) = map DictItem rs"

definition first_item :: "cmd_output \<Rightarrow> py_exception + item" where
  "first_item out =
    (case items_of out of
       [] \<Rightarrow> Inl (Raise IndexError ''index out of range'')
     | x # xs \<Rightarrow> Inr x)"

definition attribute_error_get :: py_exception where
  "attribute_error_get =
     Raise AttributeError (quote ''str'' @ '' object has no attribute '' @ quote ''get'')"

definition type_error_index :: py_exception where
  "type_error_index =
     Raise TypeError (''string indices must be integers, not '' @ quote ''str'')"

text \<open>
  The dictionary comprehension building \<^verbatim>\<open>cdp_lookup\<close>. Subscripting a one-character
  string with \<^verbatim>\<open>'local_port'\<close> is a TypeError. For a record the key is read first, then
  the four values in the order written; a later record with the same \<^verbatim>\<open>local_port\<close>
  replaces the earlier entry.
\<close>

fun cdp_entry :: "item \<Rightarrow> py_exception + (string \<times> pydict)" where
  "cdp_entry (StrItem s) = Inl type_error_index"
| "cdp_entry (DictItem d) =
    (case subscript d ''local_port'' of Inl e \<Rightarrow> Inl e | Inr k \<Rightarrow>
    (case subscript d ''destination_host'' of Inl e \<Rightarrow> Inl e | Inr n \<Rightarrow>
    (case subscript d ''management_ip'' of Inl e \<Rightarrow> Inl e | Inr i \<Rightarrow>
    (case subscript d ''platform'' of Inl e \<Rightarrow> Inl e | Inr p \<Rightarrow>
    (case subscript d ''remote_port'' of Inl e \<Rightarrow> Inl e | Inr rp \<Rightarrow>
       Inr (k, [(''neighbor'', n), (''neighbor_ip'', i),
                (''neighbor_platform'', p), (''neighbor_port'', rp)]))))))"

fun cdp_fold :: "(string \<rightharpoonup> pydict) \<Rightarrow> item list \<Rightarrow> py_exception + (string \<rightharpoonup> pydict)" where
  "cdp_fold acc [] = Inr acc"
| "cdp_fold acc (x # xs) =
    (case cdp_entry x of
       Inl e \<Rightarrow> Inl e
     | Inr (k, v) \<Rightarrow> cdp_fold (acc(k \<mapsto> v)) xs)"

definition build_cdp_lookup :: "cmd_output \<Rightarrow> py_exception + (string \<rightharpoonup> pydict)" where
  "build_cdp_lookup cdp_data = cdp_fold Map.empty (items_of cdp_data)"

text \<open>\<^verbatim>\<open>cdp_lookup.get(local_int, {})\<close>: None is never a key.\<close>

definition cdp_lookup_get :: "(string \<rightharpoonup> pydict) \<Rightarrow> pyval \<Rightarrow> pydict" where
  "cdp_lookup_get cdp_lookup local_int =
    (case local_int of
       PNone \<Rightarrow> []
     | PStr k \<Rightarrow> (case cdp_lookup k of None \<Rightarrow> [] | Some v \<Rightarrow> v))"

definition summary_row :: "pyval \<Rightarrow> string \<Rightarrow> pydict \<Rightarrow> row" where
  "summary_row hostname ip device_info =
    [(''hostname'', hostname), (''ip_address'', PStr ip),
     (''model'', dict_get device_info ''hardware''),
     (''version'', dict_get device_info ''version''),
     (''status'', PStr ''OK'')]"

definition interface_row ::
  "pyval \<Rightarrow> string \<Rightarrow> pydict \<Rightarrow> (string \<rightharpoonup> pydict) \<Rightarrow> pydict \<Rightarrow> row" where
  "interface_row hostname ip device_info cdp_lookup iface =
    (let local_int = dict_get iface ''intf'';
         cdp_neighbor_info = cdp_lookup_get cdp_lookup local_int
     in [(''hostname'', hostname),
         (''ip_address'', PStr ip),
         (''model'', dict_get device_info ''hardware''),
         (''version'', dict_get device_info ''version''),
         (''interface'', local_int),
         (''interface_ip'', dict_get iface ''ipaddr''),
         (''interface_status'', dict_get iface ''status''),
         (''protocol_status'', dict_get iface ''proto''),
         (''neighbor_device'', dict_get cdp_neighbor_info ''neighbor''),
         (''neighbor_platform'', dict_get cdp_neighbor_info ''neighbor_platform''),
         (''neighbor_interface'', dict_get cdp_neighbor_info ''neighbor_port''),
         (''status'', PStr ''OK'')])"

definition failure_row :: "string \<Rightarrow> string \<Rightarrow> row" where
  "failure_row ip status = [(''ip_address'', PStr ip), (''status'', PStr status)]"

text \<open>
  The \<^verbatim>\<open>for iface in interface_data\<close> loop: \<^verbatim>\<open>iface.get\<close> on a one-character string is an
  AttributeError, a record gives one row.
\<close>

fun write_interfaces ::
  "pyval \<Rightarrow> string \<Rightarrow> pydict \<Rightarrow> (string \<rightharpoonup> pydict) \<Rightarrow> item list \<Rightarrow> unit comp" where
  "write_interfaces hostname ip device_info cdp_lookup [] = return_c ()"
| "write_interfaces hostname ip device_info cdp_lookup (StrItem s # rest) =
     raise_c attribute_error_get"
| "write_interfaces hostname ip device_info cdp_lookup (DictItem iface # rest) =
     then_c (writerow (interface_row hostname ip device_info cdp_lookup iface))
       (\<lambda>_. write_interfaces hostname ip device_info cdp_lookup rest)"

text \<open>
  Lines 100 to 141: the first version record, the hostname (the prompt is read before
  \<^verbatim>\<open>get\<close> is called, whether or not the record has a hostname), the neighbor lookup,
  then the rows.
\<close>

definition correlate ::
  "session \<Rightarrow> string \<Rightarrow> cmd_output \<Rightarrow> cmd_output \<Rightarrow> cmd_output \<Rightarrow> unit comp" where
  "correlate net_connect ip version_data interface_data cdp_data =
    then_c (lift_c (first_item version_data)) (\<lambda>first.
      case first of
        StrItem s \<Rightarrow> raise_c attribute_error_get
      | DictItem device_info \<Rightarrow>
          then_c (read_prompt net_connect) (\<lambda>prompt.
          let hostname = dict_get_default device_info ''hostname'' (strip (remove_hash prompt)) in
          then_c (lift_c (build_cdp_lookup cdp_data)) (\<lambda>cdp_lookup.
            if is_empty_output interface_data
            then writerow (summary_row hostname ip device_info)
            else write_interfaces hostname ip device_info cdp_lookup (items_of interface_data))))"

text \<open>
  Lines 87 to 92: the version command, the interfaces command and, when the OS family
  has one, the neighbor command, in this order. \<^verbatim>\<open>cdp_data\<close> starts as the empty list.
\<close>

definition get_structured_data ::
  "session \<Rightarrow> (string \<times> string) list \<Rightarrow> (cmd_output \<times> cmd_output \<times> cmd_output) comp" where
  "get_structured_data net_connect commands =
     then_c (lift_c (subscript commands ''version'')) (\<lambda>version_cmd.
     then_c (run_command net_connect version_cmd) (\<lambda>version_data.
     then_c (lift_c (subscript commands ''interfaces'')) (\<lambda>interfaces_cmd.
     then_c (run_command net_connect interfaces_cmd) (\<lambda>interface_data.
     then_c (case map_of commands ''cdp'' of
               None \<Rightarrow> return_c (Parsed [])
             | Some cdp_cmd \<Rightarrow> run_command net_connect cdp_cmd) (\<lambda>cdp_data.
       return_c (version_data, interface_data, cdp_data))))))"

text \<open>
  The body of the \<^verbatim>\<open>with ConnectHandler(...) as net_connect\<close> block, lines 76 to 141.
  Both \<^verbatim>\<open>continue\<close> statements end it normally.
\<close>

definition with_body :: "session \<Rightarrow> string \<Rightarrow> unit comp" where
  "with_body net_connect ip =
    (let detected_os = device_type net_connect in
     case map_of COMMAND_MAP detected_os of
       None \<Rightarrow> writerow (failure_row ip (''Unsupported OS: '' @ detected_os))
     | Some commands \<Rightarrow>
         then_c (get_structured_data net_connect commands)
           (\<lambda>(version_data, interface_data, cdp_data).
             if is_empty_output version_data
             then writerow (failure_row ip ''Failed to parse version'')
             else correlate net_connect ip version_data interface_data cdp_data))"

text \<open>The \<^verbatim>\<open>try\<close> block: opening the session can raise; once it is open, leaving the
  \<^verbatim>\<open>with\<close> block closes it, whether the body returned, continued or raised.\<close>

definition try_block ::
  "connect_handler \<Rightarrow> string \<Rightarrow> string \<Rightarrow> string \<Rightarrow> string \<Rightarrow> unit comp" where
  "try_block ConnectHandler username password secret ip =
    (case ConnectHandler ip username password secret of
       Inl e \<Rightarrow> raise_c e
     | Inr net_connect \<Rightarrow>
         (case with_body net_connect ip of
            (evs, r) \<Rightarrow> (Connected # evs @ [Disconnected], r)))"

text \<open>The three \<^verbatim>\<open>except\<close> clauses, tried in order.\<close>

definition except_clauses :: "string \<Rightarrow> py_exception \<Rightarrow> unit comp" where
  "except_clauses ip e =
    (if exc_class_of e = NetmikoAuthenticationException
     then writerow (failure_row ip ''Authentication Failed'')
     else if exc_class_of e = NetmikoTimeoutException
     then writerow (failure_row ip ''Connection Timeout'')
     else writerow (failure_row ip (''Error: '' @ exc_str e)))"

text \<open>The status text the \<^verbatim>\<open>except\<close> clauses put in their row.\<close>

definition except_status :: "py_exception \<Rightarrow> string" where
  "except_status e =
    (if exc_class_of e = NetmikoAuthenticationException then ''Authentication Failed''
     else if exc_class_of e = NetmikoTimeoutException then ''Connection Timeout''
     else ''Error: '' @ exc_str e)"

text \<open>
  One pass through the \<^verbatim>\<open>while\<close> loop of \<^verbatim>\<open>device_worker\<close> after \<^verbatim>\<open>ip\<close> was taken from
  the queue: \<^verbatim>\<open>try\<close>, \<^verbatim>\<open>except\<close>, \<^verbatim>\<open>finally\<close>. The result is \<open>Inl e\<close> when an exception
  leaves the loop body.
\<close>

definition device_worker_body ::
  "connect_handler \<Rightarrow> string \<Rightarrow> string \<Rightarrow> string \<Rightarrow> string \<Rightarrow> unit comp" where
  "device_worker_body ConnectHandler username password secret ip =
    (case try_block ConnectHandler username password secret ip of
       (evs, Inr u) \<Rightarrow> (evs @ [TaskDone, PbarUpdate], Inr ())
     | (evs, Inl e) \<Rightarrow>
         (case except_clauses ip e of
            (evs', r) \<Rightarrow> (evs @ evs' @ [TaskDone, PbarUpdate], r)))"

text \<open>The rows a trace hands to the writer, in order.\<close>

fun rows_of :: "event list \<Rightarrow> row list" where
  "rows_of [] = []"
| "rows_of (Wrote r # evs) = r # rows_of evs"
| "rows_of (ev # evs) = rows_of evs"

definition status_of :: "row \<Rightarrow> pyval option" where
  "status_of r = map_of r ''status''"

definition task_rows :: "connect_handler \<Rightarrow> string \<Rightarrow> string \<Rightarrow> string \<Rightarrow> string \<Rightarrow> row list" where
  "task_rows ConnectHandler username password secret ip =
     rows_of (fst (device_worker_body ConnectHandler username password secret ip))"

definition count_task_done :: "event list \<Rightarrow> nat" where
  "count_task_done evs = length (filter (\<lambda>ev. ev = TaskDone) evs)"

text \<open>The three neighbor cells of a row, in the order of the header.\<close>

definition neighbor_cells :: "row \<Rightarrow> pyval option list" where
  "neighbor_cells r =
     map (map_of r) [''neighbor_device'', ''neighbor_platform'', ''neighbor_interface'']"

section \<open>Recognising the outcome of a device from its rows\<close>

definition is_ok_row :: "row \<Rightarrow> bool" where
  "is_ok_row r = (status_of r = Some (PStr ''OK''))"

definition starts_with :: "string \<Rightarrow> string \<Rightarrow> bool" where
  "starts_with p s = (take (length p) s = p)"

definition summary_keys :: "string list" where
  "summary_keys = [''hostname'', ''ip_address'', ''model'', ''version'', ''status'']"

definition interface_keys :: "string list" where
  "interface_keys =
    [''hostname'', ''ip_address'', ''model'', ''version'', ''interface'', ''interface_ip'',
     ''interface_status'', ''protocol_status'', ''neighbor_device'', ''neighbor_platform'',
     ''neighbor_interface'', ''status'']"

text \<open>A single row that carries nothing but the device address and a status accepted by \<open>P\<close>.\<close>

definition single_failure :: "string \<Rightarrow> row list \<Rightarrow> (string \<Rightarrow> bool) \<Rightarrow> bool" where
  "single_failure ip rows P =
    (case rows of
       [r] \<Rightarrow> (case status_of r of
                  Some (PStr st) \<Rightarrow> P st \<and> r = failure_row ip st
                | _ \<Rightarrow> False)
     | _ \<Rightarrow> False)"

datatype outcome =
    SummaryRow
  | InterfaceRows
  | UnsupportedOS
  | AuthenticationFailed
  | ConnectionTimeout
  | VersionParseFailed
  | GenericError

fun has_outcome :: "string \<Rightarrow> row list \<Rightarrow> outcome \<Rightarrow> bool" where
  "has_outcome ip rows SummaryRow =
     (length rows = 1 \<and> list_all is_ok_row rows \<and> list_all (\<lambda>r. map fst r = summary_keys) rows)"
| "has_outcome ip rows InterfaceRows =
     (rows \<noteq> [] \<and> list_all is_ok_row rows \<and> list_all (\<lambda>r. map fst r = interface_keys) rows)"
| "has_outcome ip rows UnsupportedOS = single_failure ip rows (starts_with ''Unsupported OS: '')"
| "has_outcome ip rows AuthenticationFailed =
     single_failure ip rows (\<lambda>st. st = ''Authentication Failed'')"
| "has_outcome ip rows ConnectionTimeout =
     single_failure ip rows (\<lambda>st. st = ''Connection Timeout'')"
| "has_outcome ip rows VersionParseFailed =
     single_failure ip rows (\<lambda>st. st = ''Failed to parse version'')"
| "has_outcome ip rows GenericError = single_failure ip rows (starts_with ''Error: '')"

section \<open>Workers running concurrently\<close>

text \<open>
  Each worker thread runs \<^verbatim>\<open>device_worker\<close>. Between two operations on shared objects
  (the queue, the writer's lock, the file, the progress bar) any other thread may run, so
  a worker is a small state machine and a run is a schedule: the list of thread numbers
  in the order in which they take their next step.

  \<^item> \<open>AtEmptyCheck\<close>: about to evaluate \<^verbatim>\<open>work_queue.empty()\<close> (line 59).
  \<^item> \<open>AtGet\<close>: the queue was not empty; about to call \<^verbatim>\<open>work_queue.get()\<close> (line 60),
    which blocks while the queue is empty.
  \<^item> \<open>Running ip evs r\<close>: in the loop body for \<open>ip\<close>, with the effects \<open>evs\<close> still to
    happen and \<open>r\<close> the way the body ends.
  \<^item> \<open>Writing ip row left evs r\<close>: inside \<^verbatim>\<open>ThreadSafeDictWriter.writerow\<close>, holding the
    lock, with the cells \<open>left\<close> of \<open>row\<close> still to go to the file.
  \<^item> \<open>Exited\<close>: the loop ended and \<^verbatim>\<open>device_worker\<close> returned.
  \<^item> \<open>Died e\<close>: the exception \<open>e\<close> left \<^verbatim>\<open>device_worker\<close>.
\<close>

datatype thread =
    AtEmptyCheck
  | AtGet
  | Running string "event list" "py_exception + unit"
  | Writing string row "string list" "event list" "py_exception + unit"
  | Exited
  | Died py_exception

record run_config =
  connect :: connect_handler
  username :: string
  password :: string
  secret :: string

text \<open>
  The shared objects. \<open>popped\<close> and \<open>marked_done\<close> are history variables: the device ids
  \<^verbatim>\<open>get\<close> has returned and those for which \<^verbatim>\<open>task_done\<close> has run, in order. No step reads
  them.
\<close>

record sys =
  work_queue :: "string list"
  unfinished_tasks :: nat
  lock :: "nat option"
  csvfile :: "string list"
  pbar :: nat
  threads :: "thread list"
  popped :: "string list"
  marked_done :: "string list"

definition set_thread :: "nat \<Rightarrow> thread \<Rightarrow> sys \<Rightarrow> sys" where
  "set_thread i t st = st\<lparr>threads := (threads st)[i := t]\<rparr>"

text \<open>One effect of the loop body, performed by thread \<open>i\<close>.\<close>

fun do_event :: "nat \<Rightarrow> string \<Rightarrow> event \<Rightarrow> event list \<Rightarrow> py_exception + unit \<Rightarrow> sys \<Rightarrow> sys" where
  "do_event i ip (Wrote row) evs r st =
     (case lock st of
        None \<Rightarrow> set_thread i (Writing ip row (dict_to_list row) evs r) (st\<lparr>lock := Some i\<rparr>)
      | Some holder \<Rightarrow> st)"
| "do_event i ip TaskDone evs r st =
     (if unfinished_tasks st = 0
      then set_thread i (Died (Raise ValueError ''task_done() called too many times'')) st
      else set_thread i (Running ip evs r)
             (st\<lparr>unfinished_tasks := unfinished_tasks st - 1,
                 marked_done := marked_done st @ [ip]\<rparr>))"
| "do_event i ip PbarUpdate evs r st =
     set_thread i (Running ip evs r) (st\<lparr>pbar := pbar st + 1\<rparr>)"
| "do_event i ip ev evs r st = set_thread i (Running ip evs r) st"

text \<open>The next step of thread \<open>i\<close>; a blocked or finished thread leaves the state as it is.\<close>

definition step :: "run_config \<Rightarrow> nat \<Rightarrow> sys \<Rightarrow> sys" where
  "step cfg i st =
    (if length (threads st) \<le> i then st
     else case threads st ! i of
       AtEmptyCheck \<Rightarrow>
         set_thread i (if work_queue st = [] then Exited else AtGet) st
     | AtGet \<Rightarrow>
         (case work_queue st of
            [] \<Rightarrow> st
          | ip # rest \<Rightarrow>
              (case device_worker_body (connect cfg) (username cfg) (password cfg) (secret cfg) ip of
                 (evs, r) \<Rightarrow>
                   set_thread i (Running ip evs r)
                     (st\<lparr>work_queue := rest, popped := popped st @ [ip]\<rparr>)))
     | Running ip [] r \<Rightarrow>
         (case r of
            Inl e \<Rightarrow> set_thread i (Died e) st
          | Inr u \<Rightarrow> set_thread i AtEmptyCheck st)
     | Running ip (ev # evs) r \<Rightarrow> do_event i ip ev evs r st
     | Writing ip row [] evs r \<Rightarrow>
         set_thread i (Running ip evs r) (st\<lparr>lock := None\<rparr>)
     | Writing ip row (c # cs) evs r \<Rightarrow>
         set_thread i (Writing ip row cs evs r) (st\<lparr>csvfile := csvfile st @ [c]\<rparr>)
     | Exited \<Rightarrow> st
     | Died e \<Rightarrow> st)"

fun run :: "run_config \<Rightarrow> nat list \<Rightarrow> sys \<Rightarrow> sys" where
  "run cfg [] st = st"
| "run cfg (i # sched) st = run cfg sched (step cfg i st)"

text \<open>
  \<^verbatim>\<open>main\<close> up to the point where the threads are started: the devices are in the queue, the
  header is in the file, and \<open>min(NUM_THREADS, len(devices))\<close> workers are about to run.
  An empty device list makes \<^verbatim>\<open>main\<close> return before any of this.
\<close>

definition NUM_THREADS :: nat where
  "NUM_THREADS = 10"

definition main_start :: "string list \<Rightarrow> sys" where
  "main_start devices =
    \<lparr>work_queue = devices,
     unfinished_tasks = length devices,
     lock = None,
     csvfile = fieldnames,
     pbar = 0,
     threads = replicate (min NUM_THREADS (length devices)) AtEmptyCheck,
     popped = [],
     marked_done = []\<rparr>"

text \<open>\<^verbatim>\<open>work_queue.join()\<close> returns once the counter is zero; \<^verbatim>\<open>thread.join()\<close> returns once
  the thread has ended.\<close>

definition queue_join_returns :: "sys \<Rightarrow> bool" where
  "queue_join_returns st = (unfinished_tasks st = 0)"

fun ended :: "thread \<Rightarrow> bool" where
  "ended Exited = True"
| "ended (Died e) = True"
| "ended t = False"

definition main_completes :: "sys \<Rightarrow> bool" where
  "main_completes st = (queue_join_returns st \<and> list_all ended (threads st))"

section \<open>Invariants of a run\<close>

text \<open>
  The device ids a thread has taken from the queue and not yet reported with
  \<^verbatim>\<open>task_done\<close>: one copy for each \<open>TaskDone\<close> still ahead of it.
\<close>

fun pending :: "thread \<Rightarrow> string multiset" where
  "pending (Running ip evs r) = replicate_mset (count_task_done evs) ip"
| "pending (Writing ip row left evs r) = replicate_mset (count_task_done evs) ip"
| "pending t = {#}"

definition pending_all :: "thread list \<Rightarrow> string multiset" where
  "pending_all ths = sum_list (map pending ths)"

fun returns_normally :: "thread \<Rightarrow> bool" where
  "returns_normally (Running ip evs r) = (r = Inr ())"
| "returns_normally (Writing ip row left evs r) = (r = Inr ())"
| "returns_normally (Died e) = False"
| "returns_normally t = True"

definition queue_inv :: "string list \<Rightarrow> sys \<Rightarrow> bool" where
  "queue_inv devices st =
    (popped st @ work_queue st = devices \<and>
     unfinished_tasks st = length (work_queue st) + size (pending_all (threads st)) \<and>
     mset (marked_done st) + pending_all (threads st) = mset (popped st) \<and>
     list_all returns_normally (threads st))"

text \<open>A thread inside \<^verbatim>\<open>writerow\<close>, and the cells of its row already in the file.\<close>

fun is_writing :: "thread \<Rightarrow> bool" where
  "is_writing (Writing ip row left evs r) = True"
| "is_writing t = False"

fun written_part :: "thread \<Rightarrow> string list" where
  "written_part (Writing ip row left evs r) =
     take (length (dict_to_list row) - length left) (dict_to_list row)"
| "written_part t = []"

definition in_progress :: "sys \<Rightarrow> string list" where
  "in_progress st = (case lock st of None \<Rightarrow> [] | Some i \<Rightarrow> written_part (threads st ! i))"

text \<open>A row that the loop body of one of the devices hands to the writer.\<close>

definition from_task :: "run_config \<Rightarrow> string list \<Rightarrow> row \<Rightarrow> bool" where
  "from_task cfg devices r =
     list_ex (\<lambda>ip. r \<in> set (task_rows (connect cfg) (username cfg) (password cfg) (secret cfg) ip))
       devices"

fun thread_rows_ok :: "run_config \<Rightarrow> string list \<Rightarrow> thread \<Rightarrow> bool" where
  "thread_rows_ok cfg devices (Running ip evs r) = list_all (from_task cfg devices) (rows_of evs)"
| "thread_rows_ok cfg devices (Writing ip row left evs r) =
     (from_task cfg devices row \<and>
      length left \<le> length (dict_to_list row) \<and>
      drop (length (dict_to_list row) - length left) (dict_to_list row) = left \<and>
      list_all (from_task cfg devices) (rows_of evs))"
| "thread_rows_ok cfg devices t = True"

definition lock_inv :: "sys \<Rightarrow> bool" where
  "lock_inv st =
    (case lock st of
       None \<Rightarrow> list_all (\<lambda>t. \<not> is_writing t) (threads st)
     | Some i \<Rightarrow>
         i < length (threads st) \<and> is_writing (threads st ! i) \<and>
         (\<forall>j < length (threads st). is_writing (threads st ! j) \<longrightarrow> j = i))"

definition sink_inv :: "run_config \<Rightarrow> string list \<Rightarrow> sys \<Rightarrow> bool" where
  "sink_inv cfg devices st =
    (set (work_queue st) \<subseteq> set devices \<and>
     list_all (thread_rows_ok cfg devices) (threads st) \<and>
     lock_inv st \<and>
     (\<exists>rows. list_all (from_task cfg devices) rows \<and>
        csvfile st = fieldnames @ concat (map dict_to_list rows) @ in_progress st))"

section \<open>Example devices\<close>

text \<open>
  A small network used to run the definitions on concrete inputs: a switch with two
  interfaces and one neighbor, devices that refuse the login or time out, a router of an
  OS family the catalog does not list, a firewall whose version record has no hostname, a
  switch whose neighbor records use other field names, a switch whose version output
  does not parse, and a switch without neighbors, for which the neighbor command returns
  its text unparsed.
\<close>

definition switch1_version :: pydict where
  "switch1_version = [(''hostname'', ''sw1''), (''hardware'', ''WS-C3750''), (''version'', ''15.0'')]"

definition switch1_interfaces :: "pydict list" where
  "switch1_interfaces =
    [[(''intf'', ''Gi0/1''), (''ipaddr'', ''10.0.0.1''), (''status'', ''up''), (''proto'', ''up'')],
     [(''intf'', ''Gi0/2''), (''ipaddr'', ''unassigned''), (''status'', ''down''),
      (''proto'', ''down'')]]"

definition switch1_neighbors :: "pydict list" where
  "switch1_neighbors =
    [[(''local_port'', ''Gi0/1''), (''destination_host'', ''sw2''),
      (''management_ip'', ''10.0.0.9''), (''platform'', ''WS-C2960''),
      (''remote_port'', ''Gi1/1'')]]"

definition switch1 :: session where
  "switch1 =
    \<lparr>device_type = ''cisco_ios'',
     send_command = (\<lambda>cmd.
       if cmd = ''show version'' then Inr (Parsed [switch1_version])
       else if cmd = ''show ip interface brief'' then Inr (Parsed switch1_interfaces)
       else Inr (Parsed switch1_neighbors)),
     find_prompt = Inr ''sw1#''\<rparr>"

definition router4 :: session where
  "router4 =
    \<lparr>device_type = ''cisco_xr'',
     send_command = (\<lambda>cmd. Inr (Raw [])),
     find_prompt = Inr ''xr4#''\<rparr>"

definition firewall5_version :: pydict where
  "firewall5_version = [(''hardware'', ''ASA5506''), (''version'', ''9.8'')]"

definition firewall5 :: session where
  "firewall5 =
    \<lparr>device_type = ''cisco_asa'',
     send_command = (\<lambda>cmd.
       if cmd = ''show version'' then Inr (Parsed [firewall5_version]) else Inr (Parsed [])),
     find_prompt = Inr ''fw5# ''\<rparr>"

definition switch6 :: session where
  "switch6 =
    \<lparr>device_type = ''cisco_ios'',
     send_command = (\<lambda>cmd.
       if cmd = ''show version''
       then Inr (Parsed [[(''hostname'', ''sw6''), (''hardware'', ''WS-C3750''),
                          (''version'', ''15.2'')]])
       else if cmd = ''show ip interface brief''
       then Inr (Parsed [])
       else Inr (Parsed [[(''local_interface'', ''Gi0/1''), (''neighbor_name'', ''sw2''),
                          (''mgmt_address'', ''10.0.0.9''), (''platform'', ''WS-C2960''),
                          (''neighbor_interface'', ''Gi1/1'')]])),
     find_prompt = Inr ''sw6#''\<rparr>"

definition switch7 :: session where
  "switch7 =
    \<lparr>device_type = ''cisco_ios'',
     send_command = (\<lambda>cmd.
       if cmd = ''show version'' then Inr (Parsed [])
       else if cmd = ''show ip interface brief''
       then Inr (Parsed [[(''intf'', ''Gi0/1''), (''ipaddr'', ''10.0.0.7''),
                          (''status'', ''up''), (''proto'', ''up'')]])
       else Inr (Raw ''% CDP is not enabled'')),
     find_prompt = Inr ''sw7#''\<rparr>"

definition switch9_interfaces :: "pydict list" where
  "switch9_interfaces =
    [[(''intf'', ''Gi0/1''), (''ipaddr'', ''10.0.0.9''), (''status'', ''up''), (''proto'', ''up'')]]"

definition switch9 :: session where
  "switch9 =
    \<lparr>device_type = ''cisco_ios'',
     send_command = (\<lambda>cmd.
       if cmd = ''show version''
       then Inr (Parsed [[(''hostname'', ''sw9''), (''hardware'', ''WS-C2960''),
                          (''version'', ''15.2'')]])
       else if cmd = ''show ip interface brief'' then Inr (Parsed switch9_interfaces)
       else Inr (Raw ''Total cdp entries displayed : 0'')),
     find_prompt = Inr ''sw9#''\<rparr>"

definition example_net :: connect_handler where
  "example_net host user pass enable =
    (if host = ''10.0.0.1'' then Inr switch1
     else if host = ''10.0.0.2''
     then Inl (Raise NetmikoAuthenticationException ''Authentication to device failed.'')
     else if host = ''10.0.0.3''
     then Inl (Raise NetmikoTimeoutException ''TCP connection to device failed.'')
     else if host = ''10.0.0.4'' then Inr router4
     else if host = ''10.0.0.5'' then Inr firewall5
     else if host = ''10.0.0.6'' then Inr switch6
     else if host = ''10.0.0.7'' then Inr switch7
     else if host = ''10.0.0.9'' then Inr switch9
     else Inl (Raise OtherException ''No route to host''))"

definition example_cfg :: run_config where
  "example_cfg =
    \<lparr>connect = example_net, username = ''admin'', password = ''pw'', secret = []\<rparr>"

text \<open>
  A schedule for two workers and two devices. Worker 0 checks the queue, takes the first
  device, finishes it and checks the queue again: the second device is still there. Then
  worker 1 checks the queue, takes the second device, finishes it, finds the queue empty
  and leaves. Worker 0 has yet to call \<^verbatim>\<open>get\<close>.
\<close>

definition race_schedule :: "nat list" where
  "race_schedule = replicate 20 0 @ replicate 21 1"

definition race_devices :: "string list" where
  "race_devices = [''10.0.0.2'', ''10.0.0.3'']"

text \<open>
  A schedule that stops in the middle of a row: worker 0 takes the first device, enters
  the writer and writes two cells; worker 1 takes the second device and then waits for the
  lock.
\<close>

definition writing_schedule :: "nat list" where
  "writing_schedule = [0, 0, 0, 0, 0, 1, 1, 1, 1]"

section \<open>The loop body in closed form\<close>

lemma then_c_Inl: "then_c (evs, Inl e) f = (evs, Inl e)"
  by (simp add: then_c_def)

lemma then_c_Inr: "then_c (evs, Inr x) f = (evs @ fst (f x), snd (f x))"
  by (simp add: then_c_def split: prod.splits)

lemma wrong_fields_failure_row: "wrong_fields (failure_row ip st) = []"
  by (simp add: wrong_fields_def failure_row_def fieldnames_def)

lemma wrong_fields_summary_row: "wrong_fields (summary_row h ip d) = []"
  by (simp add: wrong_fields_def summary_row_def fieldnames_def)

lemma wrong_fields_interface_row: "wrong_fields (interface_row h ip d lk i) = []"
  by (simp add: wrong_fields_def interface_row_def fieldnames_def Let_def)

lemma writerow_failure_row: "writerow (failure_row ip st) = ([Wrote (failure_row ip st)], Inr ())"
  by (simp add: writerow_def wrong_fields_failure_row emit_def)

lemma writerow_summary_row: "writerow (summary_row h ip d) = ([Wrote (summary_row h ip d)], Inr ())"
  by (simp add: writerow_def wrong_fields_summary_row emit_def)

lemma writerow_interface_row:
  "writerow (interface_row h ip d lk i) = ([Wrote (interface_row h ip d lk i)], Inr ())"
  by (simp add: writerow_def wrong_fields_interface_row emit_def)

lemma rows_of_append: "rows_of (xs @ ys) = rows_of xs @ rows_of ys"
  by (induction xs rule: rows_of.induct) simp_all

lemma rows_of_map_Wrote: "rows_of (map (\<lambda>i. Wrote (f i)) xs) = map f xs"
  by (induction xs) simp_all

lemma write_interfaces_records:
  "write_interfaces h ip d lk (map DictItem ifs) =
     (map (\<lambda>i. Wrote (interface_row h ip d lk i)) ifs, Inr ())"
  by (induction ifs) (simp_all add: return_c_def writerow_interface_row then_c_Inr)

lemma write_interfaces_text:
  "s \<noteq> [] \<Longrightarrow>
   write_interfaces h ip d lk (map (\<lambda>c. StrItem [c]) s) = ([], Inl attribute_error_get)"
  by (cases s) (simp_all add: raise_c_def)

lemma write_interfaces_outcome:
  "\<not> is_empty_output idata \<Longrightarrow>
   write_interfaces h ip d lk (items_of idata) =
     (case idata of
        Raw s \<Rightarrow> ([], Inl attribute_error_get)
      | Parsed ifs \<Rightarrow> (map (\<lambda>i. Wrote (interface_row h ip d lk i)) ifs, Inr ()))"
  by (cases idata) (simp_all add: write_interfaces_records write_interfaces_text)

lemma correlate_eq:
  "correlate nc ip vd idata cd =
    (case first_item vd of
       Inl e \<Rightarrow> ([], Inl e)
     | Inr (StrItem s) \<Rightarrow> ([], Inl attribute_error_get)
     | Inr (DictItem d) \<Rightarrow>
        (case find_prompt nc of
           Inl e \<Rightarrow> ([Prompt], Inl e)
         | Inr prompt \<Rightarrow>
            (case build_cdp_lookup cd of
               Inl e \<Rightarrow> ([Prompt], Inl e)
             | Inr lk \<Rightarrow>
                 (if is_empty_output idata
                  then ([Prompt,
                         Wrote (summary_row
                           (dict_get_default d ''hostname'' (strip (remove_hash prompt))) ip d)],
                        Inr ())
                  else (case idata of
                          Raw s \<Rightarrow> ([Prompt], Inl attribute_error_get)
                        | Parsed ifs \<Rightarrow>
                            (Prompt # map (\<lambda>i. Wrote (interface_row
                               (dict_get_default d ''hostname'' (strip (remove_hash prompt)))
                               ip d lk i)) ifs,
                             Inr ()))))))"
  by (simp add: correlate_def lift_c_def read_prompt_def raise_c_def Let_def then_c_Inl then_c_Inr
      writerow_summary_row write_interfaces_outcome
      split: sum.splits item.splits cmd_output.splits)

lemma get_structured_data_eq:
  "get_structured_data nc commands =
    (case subscript commands ''version'' of Inl e \<Rightarrow> ([], Inl e) | Inr vc \<Rightarrow>
    (case send_command nc vc of Inl e \<Rightarrow> ([Sent vc], Inl e) | Inr vd \<Rightarrow>
    (case subscript commands ''interfaces'' of Inl e \<Rightarrow> ([Sent vc], Inl e) | Inr ic \<Rightarrow>
    (case send_command nc ic of Inl e \<Rightarrow> ([Sent vc, Sent ic], Inl e) | Inr idata \<Rightarrow>
    (case map_of commands ''cdp'' of
       None \<Rightarrow> ([Sent vc, Sent ic], Inr (vd, idata, Parsed []))
     | Some cc \<Rightarrow>
        (case send_command nc cc of
           Inl e \<Rightarrow> ([Sent vc, Sent ic, Sent cc], Inl e)
         | Inr cd \<Rightarrow> ([Sent vc, Sent ic, Sent cc], Inr (vd, idata, cd))))))))"
  by (simp add: get_structured_data_def lift_c_def run_command_def return_c_def
      then_c_Inl then_c_Inr split: sum.splits option.splits)

lemma get_structured_data_rows: "rows_of (fst (get_structured_data nc commands)) = []"
  by (simp add: get_structured_data_eq split: sum.splits option.splits)

lemma except_clauses_eq:
  "except_clauses ip e = ([Wrote (failure_row ip (except_status e))], Inr ())"
  by (simp add: except_clauses_def except_status_def writerow_failure_row)

lemma with_body_eq:
  "with_body nc ip =
    (case map_of COMMAND_MAP (device_type nc) of
       None \<Rightarrow> ([Wrote (failure_row ip (''Unsupported OS: '' @ device_type nc))], Inr ())
     | Some commands \<Rightarrow>
        (case get_structured_data nc commands of
           (evs, Inl e) \<Rightarrow> (evs, Inl e)
         | (evs, Inr (vd, idata, cd)) \<Rightarrow>
             if is_empty_output vd
             then (evs @ [Wrote (failure_row ip ''Failed to parse version'')], Inr ())
             else (evs @ fst (correlate nc ip vd idata cd), snd (correlate nc ip vd idata cd))))"
  by (simp add: with_body_def Let_def writerow_failure_row then_c_def
      split: option.splits sum.splits prod.splits)

lemma try_block_eq:
  "try_block CH u p s ip =
    (case CH ip u p s of
       Inl e \<Rightarrow> ([], Inl e)
     | Inr nc \<Rightarrow> (Connected # fst (with_body nc ip) @ [Disconnected], snd (with_body nc ip)))"
  by (simp add: try_block_def raise_c_def split: sum.splits prod.splits)

lemma device_worker_body_eq:
  "device_worker_body CH u p s ip =
    (case snd (try_block CH u p s ip) of
       Inr x \<Rightarrow> (fst (try_block CH u p s ip) @ [TaskDone, PbarUpdate], Inr ())
     | Inl e \<Rightarrow>
         (fst (try_block CH u p s ip) @
            [Wrote (failure_row ip (except_status e)), TaskDone, PbarUpdate], Inr ()))"
  by (simp add: device_worker_body_def except_clauses_eq split: sum.splits prod.splits)

lemma correlate_outcome:
  "(snd (correlate nc ip vd idata cd) = Inr () \<and>
      ((\<exists>h d. rows_of (fst (correlate nc ip vd idata cd)) = [summary_row h ip d]) \<or>
       (\<exists>h d lk ifs. ifs \<noteq> [] \<and>
           rows_of (fst (correlate nc ip vd idata cd)) = map (interface_row h ip d lk) ifs)))
   \<or> ((\<exists>e. snd (correlate nc ip vd idata cd) = Inl e) \<and>
        rows_of (fst (correlate nc ip vd idata cd)) = [])"
proof (cases "first_item vd")
  case (Inl e)
  then show ?thesis by (simp add: correlate_eq)
next
  case (Inr it)
  show ?thesis
  proof (cases it)
    case (StrItem s)
    with Inr show ?thesis by (simp add: correlate_eq)
  next
    case (DictItem d)
    show ?thesis
    proof (cases "find_prompt nc")
      case (Inl e)
      with Inr DictItem show ?thesis by (simp add: correlate_eq)
    next
      case pr: (Inr prompt)
      show ?thesis
      proof (cases "build_cdp_lookup cd")
        case (Inl e)
        with Inr DictItem pr show ?thesis by (simp add: correlate_eq)
      next
        case lk: (Inr lk)
        show ?thesis
        proof (cases "is_empty_output idata")
          case True
          with Inr DictItem pr lk show ?thesis by (simp add: correlate_eq) blast
        next
          case False
          show ?thesis
          proof (cases idata)
            case (Raw s)
            with False Inr DictItem pr lk show ?thesis by (simp add: correlate_eq)
          next
            case (Parsed ifs)
            with False have ne: "ifs \<noteq> []" by simp
            have "rows_of (fst (correlate nc ip vd idata cd)) =
                    map (interface_row
                      (dict_get_default d ''hostname'' (strip (remove_hash prompt))) ip d lk) ifs"
              using Parsed ne Inr DictItem pr lk
              by (simp add: correlate_eq rows_of_map_Wrote)
            moreover have "snd (correlate nc ip vd idata cd) = Inr ()"
              using Parsed ne Inr DictItem pr lk by (simp add: correlate_eq)
            ultimately show ?thesis using ne by blast
          qed
        qed
      qed
    qed
  qed
qed

lemma with_body_outcome:
  "(snd (with_body nc ip) = Inr () \<and>
      (rows_of (fst (with_body nc ip)) =
          [failure_row ip (''Unsupported OS: '' @ device_type nc)] \<or>
       rows_of (fst (with_body nc ip)) = [failure_row ip ''Failed to parse version''] \<or>
       (\<exists>h d. rows_of (fst (with_body nc ip)) = [summary_row h ip d]) \<or>
       (\<exists>h d lk ifs. ifs \<noteq> [] \<and>
           rows_of (fst (with_body nc ip)) = map (interface_row h ip d lk) ifs)))
   \<or> ((\<exists>e. snd (with_body nc ip) = Inl e) \<and> rows_of (fst (with_body nc ip)) = [])"
proof (cases "map_of COMMAND_MAP (device_type nc)")
  case None
  then show ?thesis by (simp add: with_body_eq)
next
  case (Some commands)
  obtain evs r where g: "get_structured_data nc commands = (evs, r)"
    by (cases "get_structured_data nc commands")
  have norows: "rows_of evs = []"
    using get_structured_data_rows [of nc commands] g by simp
  show ?thesis
  proof (cases r)
    case (Inl e)
    with Some g norows show ?thesis by (simp add: with_body_eq)
  next
    case (Inr t)
    obtain vd idata cd where t: "t = (vd, idata, cd)" by (cases t)
    show ?thesis
    proof (cases "is_empty_output vd")
      case True
      with Some g Inr t norows show ?thesis by (simp add: with_body_eq rows_of_append)
    next
      case False
      have f: "fst (with_body nc ip) = evs @ fst (correlate nc ip vd idata cd)"
        and s: "snd (with_body nc ip) = snd (correlate nc ip vd idata cd)"
        using Some g Inr t False by (simp_all add: with_body_eq)
      show ?thesis
        using correlate_outcome [of nc ip vd idata cd]
        unfolding f s rows_of_append norows append_Nil by blast
    qed
  qed
qed

lemma try_block_raises_no_rows:
  assumes "snd (try_block CH u p s ip) = Inl e"
  shows "rows_of (fst (try_block CH u p s ip)) = []"
proof (cases "CH ip u p s")
  case (Inl e')
  then show ?thesis by (simp add: try_block_eq)
next
  case (Inr nc)
  with assms have "snd (with_body nc ip) = Inl e" by (simp add: try_block_eq)
  with with_body_outcome [of nc ip] have "rows_of (fst (with_body nc ip)) = []" by auto
  with Inr show ?thesis by (simp add: try_block_eq rows_of_append)
qed

lemma task_rows_raised:
  assumes "snd (try_block CH u p s ip) = Inl e"
  shows "task_rows CH u p s ip = [failure_row ip (except_status e)]"
  using assms try_block_raises_no_rows [OF assms]
  by (simp add: task_rows_def device_worker_body_eq rows_of_append)

lemma task_rows_returned:
  assumes "snd (try_block CH u p s ip) = Inr x"
  shows "task_rows CH u p s ip = rows_of (fst (try_block CH u p s ip))"
  using assms by (simp add: task_rows_def device_worker_body_eq rows_of_append)

lemma device_worker_body_returns: "snd (device_worker_body CH u p s ip) = Inr ()"
  by (simp add: device_worker_body_eq split: sum.splits)

text \<open>The shapes the rows of one device can take.\<close>

lemma task_rows_shape:
  "(\<exists>h d. task_rows CH u p s ip = [summary_row h ip d]) \<or>
   (\<exists>h d lk ifs. ifs \<noteq> [] \<and> task_rows CH u p s ip = map (interface_row h ip d lk) ifs) \<or>
   (\<exists>os. task_rows CH u p s ip = [failure_row ip (''Unsupported OS: '' @ os)]) \<or>
   task_rows CH u p s ip = [failure_row ip ''Failed to parse version''] \<or>
   (\<exists>e. task_rows CH u p s ip = [failure_row ip (except_status e)])"
proof (cases "snd (try_block CH u p s ip)")
  case (Inl e)
  from task_rows_raised [OF this] show ?thesis by blast
next
  case (Inr x)
  note ret = task_rows_returned [OF this]
  show ?thesis
  proof (cases "CH ip u p s")
    case (Inl e)
    with Inr show ?thesis by (simp add: try_block_eq)
  next
    case nc: (Inr nc)
    with Inr have ok: "snd (with_body nc ip) = Inr ()" by (simp add: try_block_eq)
    have rows: "task_rows CH u p s ip = rows_of (fst (with_body nc ip))"
      using ret nc by (simp add: try_block_eq rows_of_append)
    from with_body_outcome [of nc ip] ok show ?thesis
      unfolding rows by auto
  qed
qed

lemma status_of_failure_row: "status_of (failure_row ip st) = Some (PStr st)"
  by (simp add: status_of_def failure_row_def)

lemma status_of_summary_row: "status_of (summary_row h ip d) = Some (PStr ''OK'')"
  by (simp add: status_of_def summary_row_def)

lemma status_of_interface_row: "status_of (interface_row h ip d lk i) = Some (PStr ''OK'')"
  by (simp add: status_of_def interface_row_def Let_def)

lemma keys_failure_row: "map fst (failure_row ip st) = [''ip_address'', ''status'']"
  by (simp add: failure_row_def)

lemma keys_summary_row: "map fst (summary_row h ip d) = summary_keys"
  by (simp add: summary_row_def summary_keys_def)

lemma keys_interface_row: "map fst (interface_row h ip d lk i) = interface_keys"
  by (simp add: interface_row_def interface_keys_def Let_def)

lemma single_failure_failure_row: "single_failure ip [failure_row ip st] P = P st"
  by (simp add: single_failure_def status_of_failure_row)

lemma summary_row_not_failure_row: "summary_row h ip d \<noteq> failure_row ip' st"
  by (simp add: summary_row_def failure_row_def)

lemma interface_row_not_failure_row: "interface_row h ip d lk i \<noteq> failure_row ip' st"
  by (simp add: interface_row_def failure_row_def Let_def)

lemma single_failure_summary_row: "single_failure ip [summary_row h ip d] P = False"
  by (simp add: single_failure_def status_of_summary_row summary_row_not_failure_row)

lemma single_failure_interface_rows:
  "single_failure ip (map (interface_row h ip' d lk) ifs) P = False"
proof (cases ifs)
  case Nil
  then show ?thesis by (simp add: single_failure_def)
next
  case (Cons i rest)
  then show ?thesis
    by (cases rest)
       (simp_all add: single_failure_def status_of_interface_row interface_row_not_failure_row)
qed

lemma has_outcome_failure_row:
  "has_outcome ip [failure_row ip st] k =
    (case k of
       SummaryRow \<Rightarrow> False
     | InterfaceRows \<Rightarrow> False
     | UnsupportedOS \<Rightarrow> starts_with ''Unsupported OS: '' st
     | AuthenticationFailed \<Rightarrow> st = ''Authentication Failed''
     | ConnectionTimeout \<Rightarrow> st = ''Connection Timeout''
     | VersionParseFailed \<Rightarrow> st = ''Failed to parse version''
     | GenericError \<Rightarrow> starts_with ''Error: '' st)"
  by (cases k)
     (simp_all add: single_failure_failure_row keys_failure_row summary_keys_def interface_keys_def)

lemma has_outcome_summary_row: "has_outcome ip [summary_row h ip d] k = (k = SummaryRow)"
  by (cases k)
     (simp_all add: single_failure_summary_row keys_summary_row is_ok_row_def
        status_of_summary_row summary_keys_def interface_keys_def)

lemma has_outcome_interface_rows:
  assumes "ifs \<noteq> []"
  shows "has_outcome ip (map (interface_row h ip d lk) ifs) k = (k = InterfaceRows)"
proof (cases k)
  case SummaryRow
  obtain i rest where "ifs = i # rest" using assms by (cases ifs) auto
  then show ?thesis using SummaryRow
    by (simp add: keys_interface_row summary_keys_def interface_keys_def)
next
  case InterfaceRows
  then show ?thesis using assms
    by (simp add: list_all_iff keys_interface_row is_ok_row_def status_of_interface_row)
qed (simp_all add: single_failure_interface_rows)

lemma starts_with_append: "starts_with p (p @ s)"
  by (simp add: starts_with_def)

lemma unique_unsupported:
  "\<exists>!k. has_outcome ip [failure_row ip (''Unsupported OS: '' @ os)] k"
proof (rule ex1I [of _ UnsupportedOS])
  show "has_outcome ip [failure_row ip (''Unsupported OS: '' @ os)] UnsupportedOS"
    by (simp add: single_failure_failure_row starts_with_def)
  fix k assume "has_outcome ip [failure_row ip (''Unsupported OS: '' @ os)] k"
  then show "k = UnsupportedOS"
    by (cases k)
       (simp_all add: single_failure_failure_row keys_failure_row summary_keys_def
          interface_keys_def starts_with_def)
qed

lemma unique_generic:
  "\<exists>!k. has_outcome ip [failure_row ip (''Error: '' @ m)] k"
proof (rule ex1I [of _ GenericError])
  show "has_outcome ip [failure_row ip (''Error: '' @ m)] GenericError"
    by (simp add: single_failure_failure_row starts_with_def)
  fix k assume "has_outcome ip [failure_row ip (''Error: '' @ m)] k"
  then show "k = GenericError"
    by (cases k)
       (simp_all add: single_failure_failure_row keys_failure_row summary_keys_def
          interface_keys_def starts_with_def)
qed

lemma unique_version:
  "\<exists>!k. has_outcome ip [failure_row ip ''Failed to parse version''] k"
proof (rule ex1I [of _ VersionParseFailed])
  show "has_outcome ip [failure_row ip ''Failed to parse version''] VersionParseFailed"
    by (simp add: single_failure_failure_row)
  fix k assume "has_outcome ip [failure_row ip ''Failed to parse version''] k"
  then show "k = VersionParseFailed"
    by (cases k)
       (simp_all add: single_failure_failure_row keys_failure_row summary_keys_def
          interface_keys_def starts_with_def)
qed

lemma unique_authentication:
  "\<exists>!k. has_outcome ip [failure_row ip ''Authentication Failed''] k"
proof (rule ex1I [of _ AuthenticationFailed])
  show "has_outcome ip [failure_row ip ''Authentication Failed''] AuthenticationFailed"
    by (simp add: single_failure_failure_row)
  fix k assume "has_outcome ip [failure_row ip ''Authentication Failed''] k"
  then show "k = AuthenticationFailed"
    by (cases k)
       (simp_all add: single_failure_failure_row keys_failure_row summary_keys_def
          interface_keys_def starts_with_def)
qed

lemma unique_timeout:
  "\<exists>!k. has_outcome ip [failure_row ip ''Connection Timeout''] k"
proof (rule ex1I [of _ ConnectionTimeout])
  show "has_outcome ip [failure_row ip ''Connection Timeout''] ConnectionTimeout"
    by (simp add: single_failure_failure_row)
  fix k assume "has_outcome ip [failure_row ip ''Connection Timeout''] k"
  then show "k = ConnectionTimeout"
    by (cases k)
       (simp_all add: single_failure_failure_row keys_failure_row summary_keys_def
          interface_keys_def starts_with_def)
qed

lemma unique_except:
  "\<exists>!k. has_outcome ip [failure_row ip (except_status e)] k"
  unfolding except_status_def
  using unique_authentication unique_timeout unique_generic by presburger

section \<open>Claims about one device session\<close>

text \<open>
  Claim C1. For every device taken from the queue, whatever the session provider answers,
  the loop body hands at least one row to the writer, and the rows fit exactly one of the
  seven outcomes: one summary row with status OK, one OK row per interface record, or a
  single failure row (unsupported OS, authentication, timeout, version parse, generic
  error). In particular the rows are never empty and never mix OK rows with a failure row.
\<close>

theorem one_outcome_per_device:
  "task_rows CH u p s ip \<noteq> [] \<and> (\<exists>!k. has_outcome ip (task_rows CH u p s ip) k)"
proof -
  consider (summary) h d where "task_rows CH u p s ip = [summary_row h ip d]"
    | (ifaces) h d lk ifs where "ifs \<noteq> []"
        "task_rows CH u p s ip = map (interface_row h ip d lk) ifs"
    | (unsupported) os where
        "task_rows CH u p s ip = [failure_row ip (''Unsupported OS: '' @ os)]"
    | (version) "task_rows CH u p s ip = [failure_row ip ''Failed to parse version'']"
    | (raised) e where "task_rows CH u p s ip = [failure_row ip (except_status e)]"
    using task_rows_shape [of CH u p s ip] by blast
  then show ?thesis
  proof cases
    case summary
    then show ?thesis by (simp add: has_outcome_summary_row)
  next
    case ifaces
    then show ?thesis by (simp add: has_outcome_interface_rows)
  next
    case unsupported
    then show ?thesis using unique_unsupported [of ip os] by simp
  next
    case version
    then show ?thesis using unique_version [of ip] by simp
  next
    case raised
    then show ?thesis using unique_except [of ip e] by simp
  qed
qed

lemma example_body_2:
  "device_worker_body example_net ''admin'' ''pw'' [] ''10.0.0.2'' =
     ([Wrote (failure_row ''10.0.0.2'' ''Authentication Failed''), TaskDone, PbarUpdate], Inr ())"
  by (simp add: device_worker_body_eq try_block_eq example_net_def except_status_def)

text \<open>
  Claim C6. The loop body never ends with an exception, whatever the session provider
  does. When an exception leaves the \<^verbatim>\<open>try\<close> block, the device gets exactly one row:
  status \<^verbatim>\<open>Authentication Failed\<close> for a NetmikoAuthenticationException,
  \<^verbatim>\<open>Connection Timeout\<close> for a NetmikoTimeoutException, and \<^verbatim>\<open>Error: \<close> followed by the
  text of the exception for any other.
\<close>

theorem device_task_never_raises:
  "snd (device_worker_body ConnectHandler usr pwd sec ip) = Inr () \<and>
   (\<forall>e. snd (try_block ConnectHandler usr pwd sec ip) = Inl e \<longrightarrow>
      task_rows ConnectHandler usr pwd sec ip =
        [failure_row ip
          (if exc_class_of e = NetmikoAuthenticationException then ''Authentication Failed''
           else if exc_class_of e = NetmikoTimeoutException then ''Connection Timeout''
           else ''Error: '' @ exc_str e)])"
  using task_rows_raised [of ConnectHandler usr pwd sec ip]
  by (simp add: device_worker_body_returns except_status_def)

theorem device_task_never_raises_witness:
  "snd (device_worker_body example_net ''admin'' ''pw'' [] ''10.0.0.2'') = Inr () \<and>
   task_rows example_net ''admin'' ''pw'' [] ''10.0.0.2'' =
     [failure_row ''10.0.0.2'' ''Authentication Failed''] \<and>
   task_rows example_net ''admin'' ''pw'' [] ''10.0.0.3'' =
     [failure_row ''10.0.0.3'' ''Connection Timeout''] \<and>
   task_rows example_net ''admin'' ''pw'' [] ''10.0.0.8'' =
     [failure_row ''10.0.0.8'' ''Error: No route to host'']"
proof -
  have a: "snd (try_block example_net ''admin'' ''pw'' [] ''10.0.0.2'') =
      Inl (Raise NetmikoAuthenticationException ''Authentication to device failed.'')"
    by (simp add: try_block_eq example_net_def)
  have t: "snd (try_block example_net ''admin'' ''pw'' [] ''10.0.0.3'') =
      Inl (Raise NetmikoTimeoutException ''TCP connection to device failed.'')"
    by (simp add: try_block_eq example_net_def)
  have g: "snd (try_block example_net ''admin'' ''pw'' [] ''10.0.0.8'') =
      Inl (Raise OtherException ''No route to host'')"
    by (simp add: try_block_eq example_net_def)
  show ?thesis
    using device_task_never_raises [of example_net "''admin''" "''pw''" "[]" "''10.0.0.2''"]
      device_task_never_raises [of example_net "''admin''" "''pw''" "[]" "''10.0.0.3''"]
      device_task_never_raises [of example_net "''admin''" "''pw''" "[]" "''10.0.0.8''"]
      a t g
    by simp
qed

text \<open>
  Claim C7, as amended. When the detected OS family is not a key of \<^verbatim>\<open>COMMAND_MAP\<close>, the
  loop body does exactly this: it opens the session, writes one row whose status is
  \<^verbatim>\<open>Unsupported OS: \<close> followed by the family, closes the session, and runs the
  \<^verbatim>\<open>finally\<close> block. No command is sent. The status text is capitalised as shown.
\<close>

theorem unsupported_os_single_row:
  assumes "ConnectHandler ip usr pwd sec = Inr net_connect"
    and "map_of COMMAND_MAP (device_type net_connect) = None"
  shows "device_worker_body ConnectHandler usr pwd sec ip =
     ([Connected,
       Wrote (failure_row ip (''Unsupported OS: '' @ device_type net_connect)),
       Disconnected, TaskDone, PbarUpdate],
      Inr ())"
  using assms by (simp add: device_worker_body_eq try_block_eq with_body_eq)

theorem unsupported_os_single_row_witness:
  "device_worker_body example_net ''admin'' ''pw'' [] ''10.0.0.4'' =
     ([Connected, Wrote (failure_row ''10.0.0.4'' ''Unsupported OS: cisco_xr''),
       Disconnected, TaskDone, PbarUpdate],
      Inr ())"
proof -
  have c: "example_net ''10.0.0.4'' ''admin'' ''pw'' [] = Inr router4"
    by (simp add: example_net_def)
  have n: "map_of COMMAND_MAP (device_type router4) = None"
    by (simp add: COMMAND_MAP_def router4_def)
  from unsupported_os_single_row [where ConnectHandler = example_net, OF c n]
  show ?thesis by (simp add: router4_def)
qed

text \<open>
  Claim C7 as stated names the status \<^verbatim>\<open>unsupported OS: <family>\<close>; for the router of
  family \<^verbatim>\<open>cisco_xr\<close> the row written carries \<^verbatim>\<open>Unsupported OS: cisco_xr\<close> instead.
\<close>

theorem unsupported_os_label_counterexample:
  "task_rows example_net ''admin'' ''pw'' [] ''10.0.0.4'' =
      [failure_row ''10.0.0.4'' ''Unsupported OS: cisco_xr''] \<and>
   task_rows example_net ''admin'' ''pw'' [] ''10.0.0.4'' \<noteq>
      [failure_row ''10.0.0.4'' ''unsupported OS: cisco_xr'']"
  by code_simp

text \<open>
  Claim C5, as amended. When the version command returns an empty result and the other
  commands return at all, the loop body writes exactly one row, with status
  \<^verbatim>\<open>Failed to parse version\<close>, closes the session and runs the \<^verbatim>\<open>finally\<close> block. The
  trace before that row consists of the commands already sent: it holds no row and no
  prompt read, so nothing of the correlation ran, and the result does not depend on what
  the interface and neighbor commands returned.
\<close>

theorem version_parse_failure_single_row:
  assumes "ConnectHandler ip usr pwd sec = Inr net_connect"
    and "map_of COMMAND_MAP (device_type net_connect) = Some commands"
    and "get_structured_data net_connect commands =
           (sent, Inr (version_data, interface_data, cdp_data))"
    and "is_empty_output version_data"
  shows "device_worker_body ConnectHandler usr pwd sec ip =
           (Connected # sent @
              [Wrote (failure_row ip ''Failed to parse version''),
               Disconnected, TaskDone, PbarUpdate],
            Inr ()) \<and>
         rows_of sent = [] \<and> Prompt \<notin> set sent"
proof -
  have "rows_of sent = []"
    using get_structured_data_rows [of net_connect commands] assms(3) by simp
  moreover have "Prompt \<notin> set sent"
    using assms(3) by (auto simp: get_structured_data_eq split: sum.splits option.splits)
  moreover have "device_worker_body ConnectHandler usr pwd sec ip =
           (Connected # sent @
              [Wrote (failure_row ip ''Failed to parse version''),
               Disconnected, TaskDone, PbarUpdate],
            Inr ())"
    using assms by (simp add: device_worker_body_eq try_block_eq with_body_eq)
  ultimately show ?thesis by simp
qed

lemma switch7_data:
  "get_structured_data switch7
     [(''version'', ''show version''), (''interfaces'', ''show ip interface brief''),
      (''cdp'', ''show cdp neighbors detail'')] =
   ([Sent ''show version'', Sent ''show ip interface brief'', Sent ''show cdp neighbors detail''],
    Inr (Parsed [],
         Parsed [[(''intf'', ''Gi0/1''), (''ipaddr'', ''10.0.0.7''),
                  (''status'', ''up''), (''proto'', ''up'')]],
         Raw ''% CDP is not enabled''))"
  by (simp add: get_structured_data_eq subscript_def switch7_def)

theorem version_parse_failure_single_row_witness:
  "device_worker_body example_net ''admin'' ''pw'' [] ''10.0.0.7'' =
     ([Connected, Sent ''show version'', Sent ''show ip interface brief'',
       Sent ''show cdp neighbors detail'',
       Wrote (failure_row ''10.0.0.7'' ''Failed to parse version''),
       Disconnected, TaskDone, PbarUpdate],
      Inr ())"
proof -
  have c: "example_net ''10.0.0.7'' ''admin'' ''pw'' [] = Inr switch7"
    by (simp add: example_net_def)
  have m: "map_of COMMAND_MAP (device_type switch7) =
      Some [(''version'', ''show version''), (''interfaces'', ''show ip interface brief''),
            (''cdp'', ''show cdp neighbors detail'')]"
    by (simp add: COMMAND_MAP_def switch7_def)
  have e: "is_empty_output (Parsed [])" by simp
  from version_parse_failure_single_row [where ConnectHandler = example_net, OF c m switch7_data e]
  show ?thesis by simp
qed

text \<open>
  Claim C5 as stated names the status \<^verbatim>\<open>version parse failed\<close>; the row written carries
  \<^verbatim>\<open>Failed to parse version\<close> instead.
\<close>

theorem version_parse_label_counterexample:
  "task_rows example_net ''admin'' ''pw'' [] ''10.0.0.7'' =
      [failure_row ''10.0.0.7'' ''Failed to parse version''] \<and>
   task_rows example_net ''admin'' ''pw'' [] ''10.0.0.7'' \<noteq>
      [failure_row ''10.0.0.7'' ''version parse failed'']"
  by code_simp

lemma dict_to_list_failure_row:
  "dict_to_list (failure_row ip st) =
     [''N/A'', ip, ''N/A'', ''N/A'', st, ''N/A'', ''N/A'', ''N/A'', ''N/A'', ''N/A'', ''N/A'',
      ''N/A'']"
  by (simp add: dict_to_list_def fieldnames_def row_get_def failure_row_def restval_def
      csv_field_def)

lemma not_ok_task_row:
  assumes "r \<in> set (task_rows CH u p s ip)" and "\<not> is_ok_row r"
  shows "\<exists>st. r = failure_row ip st"
proof -
  consider (summary) h d where "task_rows CH u p s ip = [summary_row h ip d]"
    | (ifaces) h d lk ifs where "task_rows CH u p s ip = map (interface_row h ip d lk) ifs"
    | (failure) st where "task_rows CH u p s ip = [failure_row ip st]"
    using task_rows_shape [of CH u p s ip] by blast
  then show ?thesis
  proof cases
    case summary
    with assms show ?thesis by (simp add: is_ok_row_def status_of_summary_row)
  next
    case ifaces
    with assms show ?thesis by (auto simp: is_ok_row_def status_of_interface_row)
  next
    case failure
    with assms show ?thesis by auto
  qed
qed

lemma dict_get_Nil: "dict_get [] k = PNone"
  by (simp add: dict_get_def)

lemma unmatched_lookup:
  assumes "\<forall>k. dict_get iface ''intf'' = PStr k \<longrightarrow> cdp_lookup k = None"
  shows "cdp_lookup_get cdp_lookup (dict_get iface ''intf'') = []"
  using assms by (simp add: cdp_lookup_get_def split: pyval.splits)

text \<open>
  Claim C10. Every row of a device that is not an OK row is a failure row holding only
  the address and the status, and the writer fills its ten other columns with
  \<^verbatim>\<open>N/A\<close>. In an OK interface row whose interface name matches no key of the neighbor
  lookup, the three neighbor columns (the last three of the header) are present with value
  None and are written as empty strings.
\<close>

theorem placeholders_differ_by_row_kind:
  "(\<forall>r \<in> set (task_rows ConnectHandler usr pwd sec ip). \<not> is_ok_row r \<longrightarrow>
      (\<exists>st. r = failure_row ip st \<and>
         dict_to_list r =
           [''N/A'', ip, ''N/A'', ''N/A'', st, ''N/A'', ''N/A'', ''N/A'', ''N/A'', ''N/A'',
            ''N/A'', ''N/A''])) \<and>
   ((\<forall>k. dict_get iface ''intf'' = PStr k \<longrightarrow> cdp_lookup k = None) \<longrightarrow>
      is_ok_row (interface_row hostname addr device_info cdp_lookup iface) \<and>
      map (map_of (interface_row hostname addr device_info cdp_lookup iface)) (drop 9 fieldnames) =
        [Some PNone, Some PNone, Some PNone] \<and>
      drop 9 (dict_to_list (interface_row hostname addr device_info cdp_lookup iface)) =
        [[], [], []]) \<and>
   drop 9 fieldnames = [''neighbor_device'', ''neighbor_platform'', ''neighbor_interface'']"
proof (intro conjI ballI impI)
  fix r assume "r \<in> set (task_rows ConnectHandler usr pwd sec ip)" "\<not> is_ok_row r"
  from not_ok_task_row [OF this] obtain st where "r = failure_row ip st" ..
  then show "\<exists>st. r = failure_row ip st \<and>
         dict_to_list r =
           [''N/A'', ip, ''N/A'', ''N/A'', st, ''N/A'', ''N/A'', ''N/A'', ''N/A'', ''N/A'',
            ''N/A'', ''N/A'']"
    by (simp add: dict_to_list_failure_row)
next
  show "is_ok_row (interface_row hostname addr device_info cdp_lookup iface)"
    by (simp add: is_ok_row_def status_of_interface_row)
next
  assume "\<forall>k. dict_get iface ''intf'' = PStr k \<longrightarrow> cdp_lookup k = None"
  note u = unmatched_lookup [OF this]
  show "map (map_of (interface_row hostname addr device_info cdp_lookup iface)) (drop 9 fieldnames) =
        [Some PNone, Some PNone, Some PNone]"
    by (simp add: interface_row_def Let_def u fieldnames_def dict_get_Nil)
  show "drop 9 (dict_to_list (interface_row hostname addr device_info cdp_lookup iface)) =
        [[], [], []]"
    by (simp add: dict_to_list_def interface_row_def Let_def u fieldnames_def dict_get_Nil
        row_get_def csv_field_def)
next
  show "drop 9 fieldnames = [''neighbor_device'', ''neighbor_platform'', ''neighbor_interface'']"
    by (simp add: fieldnames_def)
qed

theorem placeholders_differ_by_row_kind_witness:
  "dict_to_list (failure_row ''10.0.0.2'' ''Authentication Failed'') =
     [''N/A'', ''10.0.0.2'', ''N/A'', ''N/A'', ''Authentication Failed'', ''N/A'', ''N/A'',
      ''N/A'', ''N/A'', ''N/A'', ''N/A'', ''N/A''] \<and>
   drop 9 (dict_to_list (interface_row (PStr ''sw1'') ''10.0.0.1''
       [(''hostname'', ''sw1''), (''hardware'', ''WS-C3750''), (''version'', ''15.0'')]
       (Map.empty(''Gi0/1'' \<mapsto> [(''neighbor'', ''sw2'')]))
       [(''intf'', ''Gi0/2''), (''ipaddr'', ''unassigned'')])) = [[], [], []]"
proof -
  have r: "failure_row ''10.0.0.2'' ''Authentication Failed'' \<in>
      set (task_rows example_net ''admin'' ''pw'' [] ''10.0.0.2'')"
    by (simp add: task_rows_def example_body_2)
  have n: "\<not> is_ok_row (failure_row ''10.0.0.2'' ''Authentication Failed'')"
    by (simp add: is_ok_row_def status_of_failure_row)
  have m: "\<forall>k. dict_get [(''intf'', ''Gi0/2''), (''ipaddr'', ''unassigned'')] ''intf'' = PStr k \<longrightarrow>
      (Map.empty(''Gi0/1'' \<mapsto> [(''neighbor'', ''sw2'')])) k = None"
    by (simp add: dict_get_def)
  show ?thesis
    using placeholders_differ_by_row_kind [where ConnectHandler = example_net
        and usr = "''admin''" and pwd = "''pw''" and sec = "[]" and ip = "''10.0.0.2''"
        and iface = "[(''intf'', ''Gi0/2''), (''ipaddr'', ''unassigned'')]"
        and cdp_lookup = "Map.empty(''Gi0/1'' \<mapsto> [(''neighbor'', ''sw2'')])"
        and hostname = "PStr ''sw1''" and addr = "''10.0.0.1''"
        and device_info =
          "[(''hostname'', ''sw1''), (''hardware'', ''WS-C3750''), (''version'', ''15.0'')]"]
      r n m dict_to_list_failure_row [of "''10.0.0.2''" "''Authentication Failed''"]
    by blast
qed

lemma first_item_not_empty:
  "first_item out = Inr x \<Longrightarrow> \<not> is_empty_output out"
  by (cases out) (auto simp: first_item_def)

lemma items_records_not_text:
  assumes "items_of idata = map DictItem ifaces" and "\<not> is_empty_output idata"
  shows "idata = Parsed ifaces \<and> ifaces \<noteq> []"
proof (cases idata)
  case (Raw s)
  with assms(2) obtain c cs where "s = c # cs" by (cases s) auto
  with Raw assms(1) show ?thesis by (cases ifaces) auto
next
  case (Parsed rs)
  with assms show ?thesis by (auto simp: inj_map_eq_map inj_def)
qed

lemma items_records_empty:
  assumes "items_of idata = map DictItem ifaces" and "is_empty_output idata"
  shows "ifaces = []"
  using assms by (cases idata) auto

text \<open>The rows of a device whose session reaches the point where rows are written.\<close>

lemma task_rows_correlated:
  assumes conn: "ConnectHandler ip usr pwd sec = Inr net_connect"
    and os: "map_of COMMAND_MAP (device_type net_connect) = Some commands"
    and data: "snd (get_structured_data net_connect commands) =
                 Inr (version_data, interface_data, cdp_data)"
    and ver: "first_item version_data = Inr (DictItem device_info)"
    and pr: "find_prompt net_connect = Inr prompt"
    and lk: "build_cdp_lookup cdp_data = Inr cdp_lookup"
    and ifs: "items_of interface_data = map DictItem ifaces"
  shows "task_rows ConnectHandler usr pwd sec ip =
     (if ifaces = []
      then [summary_row (dict_get_default device_info ''hostname'' (strip (remove_hash prompt)))
              ip device_info]
      else map (interface_row
                  (dict_get_default device_info ''hostname'' (strip (remove_hash prompt)))
                  ip device_info cdp_lookup) ifaces)"
proof -
  obtain sent where g: "get_structured_data net_connect commands =
      (sent, Inr (version_data, interface_data, cdp_data))"
    using data by (cases "get_structured_data net_connect commands") simp
  have norows: "rows_of sent = []"
    using get_structured_data_rows [of net_connect commands] g by simp
  have ne: "\<not> is_empty_output version_data" using first_item_not_empty [OF ver] .
  have wb: "with_body net_connect ip =
      (sent @ fst (correlate net_connect ip version_data interface_data cdp_data),
       snd (correlate net_connect ip version_data interface_data cdp_data))"
    using os g ne by (simp add: with_body_eq)
  show ?thesis
  proof (cases "is_empty_output interface_data")
    case True
    then have "ifaces = []" using items_records_empty [OF ifs] by simp
    then show ?thesis
      using True conn wb ver pr lk norows
      by (simp add: task_rows_def device_worker_body_eq try_block_eq correlate_eq
          rows_of_append)
  next
    case False
    from items_records_not_text [OF ifs False]
    have p: "interface_data = Parsed ifaces" and n: "ifaces \<noteq> []" by simp_all
    show ?thesis
      using False conn wb ver pr lk norows p n
      by (simp add: task_rows_def device_worker_body_eq try_block_eq correlate_eq
          rows_of_append rows_of_map_Wrote)
  qed
qed

lemma summary_row_cells:
  "map_of (summary_row h ip d) ''hostname'' = Some h"
  "map_of (summary_row h ip d) ''ip_address'' = Some (PStr ip)"
  "map_of (summary_row h ip d) ''model'' = Some (dict_get d ''hardware'')"
  "map_of (summary_row h ip d) ''version'' = Some (dict_get d ''version'')"
  by (simp_all add: summary_row_def)

lemma interface_row_cells:
  "map_of (interface_row h ip d lk i) ''hostname'' = Some h"
  "map_of (interface_row h ip d lk i) ''ip_address'' = Some (PStr ip)"
  "map_of (interface_row h ip d lk i) ''model'' = Some (dict_get d ''hardware'')"
  "map_of (interface_row h ip d lk i) ''version'' = Some (dict_get d ''version'')"
  "map_of (interface_row h ip d lk i) ''interface'' = Some (dict_get i ''intf'')"
  "map_of (interface_row h ip d lk i) ''neighbor_device'' =
     Some (dict_get (cdp_lookup_get lk (dict_get i ''intf'')) ''neighbor'')"
  "map_of (interface_row h ip d lk i) ''neighbor_platform'' =
     Some (dict_get (cdp_lookup_get lk (dict_get i ''intf'')) ''neighbor_platform'')"
  "map_of (interface_row h ip d lk i) ''neighbor_interface'' =
     Some (dict_get (cdp_lookup_get lk (dict_get i ''intf'')) ''neighbor_port'')"
  by (simp_all add: interface_row_def Let_def)

text \<open>
  Claim C3, as amended. Take a device for which all of this holds: the session opens; the
  detected OS family is in the catalog; the inventory commands return; the version answer
  starts with a parsed record; the prompt can be read; the neighbor lookup is built without
  an exception; and the interfaces answer is empty or a list of parsed records. With no
  interface records the device gets exactly one row, the summary row; with N of them it gets
  exactly N rows. Every row carries the device address, status OK and the same hostname,
  model and version: model and version are the \<^verbatim>\<open>hardware\<close> and \<^verbatim>\<open>version\<close> fields of the
  first version record (None when absent), and the hostname is the record's \<^verbatim>\<open>hostname\<close>
  field or, when the record has none, the prompt with every \<^verbatim>\<open>#\<close> removed and whitespace
  stripped from both ends.
\<close>

theorem rows_per_interface_record:
  assumes "ConnectHandler ip usr pwd sec = Inr net_connect"
    and "map_of COMMAND_MAP (device_type net_connect) = Some commands"
    and "snd (get_structured_data net_connect commands) =
           Inr (version_data, interface_data, cdp_data)"
    and "first_item version_data = Inr (DictItem device_info)"
    and "find_prompt net_connect = Inr prompt"
    and "build_cdp_lookup cdp_data = Inr cdp_lookup"
    and "items_of interface_data = map DictItem ifaces"
  shows "length (task_rows ConnectHandler usr pwd sec ip) =
           (if ifaces = [] then 1 else length ifaces) \<and>
         (ifaces = [] \<longrightarrow>
            map fst (hd (task_rows ConnectHandler usr pwd sec ip)) = summary_keys) \<and>
         (\<forall>r \<in> set (task_rows ConnectHandler usr pwd sec ip).
            map_of r ''hostname'' =
              Some (case map_of device_info ''hostname'' of
                      Some h \<Rightarrow> PStr h
                    | None \<Rightarrow> PStr (strip (remove_hash prompt))) \<and>
            map_of r ''ip_address'' = Some (PStr ip) \<and>
            map_of r ''model'' = Some (dict_get device_info ''hardware'') \<and>
            map_of r ''version'' = Some (dict_get device_info ''version'') \<and>
            is_ok_row r)"
proof -
  note rows = task_rows_correlated [where ConnectHandler = ConnectHandler, OF assms]
  have h: "dict_get_default device_info ''hostname'' (strip (remove_hash prompt)) =
      (case map_of device_info ''hostname'' of
         Some h \<Rightarrow> PStr h
       | None \<Rightarrow> PStr (strip (remove_hash prompt)))"
    by (simp add: dict_get_default_def split: option.splits)
  show ?thesis
  proof (cases "ifaces = []")
    case True
    then show ?thesis
      unfolding rows h [symmetric]
      by (simp add: summary_row_cells keys_summary_row is_ok_row_def status_of_summary_row)
  next
    case False
    then show ?thesis
      unfolding rows h [symmetric]
      by (auto simp: interface_row_cells is_ok_row_def status_of_interface_row)
  qed
qed

lemma ios_commands:
  "map_of COMMAND_MAP ''cisco_ios'' =
     Some [(''version'', ''show version''), (''interfaces'', ''show ip interface brief''),
           (''cdp'', ''show cdp neighbors detail'')]"
  by (simp add: COMMAND_MAP_def)

lemma asa_commands:
  "map_of COMMAND_MAP ''cisco_asa'' =
     Some [(''version'', ''show version''), (''interfaces'', ''show interface ip brief'')]"
  by (simp add: COMMAND_MAP_def)

lemma switch1_data:
  "snd (get_structured_data switch1
     [(''version'', ''show version''), (''interfaces'', ''show ip interface brief''),
      (''cdp'', ''show cdp neighbors detail'')]) =
   Inr (Parsed [switch1_version], Parsed switch1_interfaces, Parsed switch1_neighbors)"
  by (simp add: get_structured_data_eq subscript_def switch1_def)

lemma firewall5_data:
  "snd (get_structured_data firewall5
     [(''version'', ''show version''), (''interfaces'', ''show interface ip brief'')]) =
   Inr (Parsed [firewall5_version], Parsed [], Parsed [])"
  by (simp add: get_structured_data_eq subscript_def firewall5_def)

lemma switch1_lookup:
  "build_cdp_lookup (Parsed switch1_neighbors) =
     Inr (Map.empty(''Gi0/1'' \<mapsto>
       [(''neighbor'', ''sw2''), (''neighbor_ip'', ''10.0.0.9''),
        (''neighbor_platform'', ''WS-C2960''), (''neighbor_port'', ''Gi1/1'')]))"
  by (simp add: build_cdp_lookup_def switch1_neighbors_def subscript_def)

theorem rows_per_interface_record_witness:
  "length (task_rows example_net ''admin'' ''pw'' [] ''10.0.0.1'') = 2 \<and>
   length (task_rows example_net ''admin'' ''pw'' [] ''10.0.0.5'') = 1 \<and>
   map fst (hd (task_rows example_net ''admin'' ''pw'' [] ''10.0.0.5'')) = summary_keys"
proof -
  have c1: "example_net ''10.0.0.1'' ''admin'' ''pw'' [] = Inr switch1"
    by (simp add: example_net_def)
  have m1: "map_of COMMAND_MAP (device_type switch1) =
      Some [(''version'', ''show version''), (''interfaces'', ''show ip interface brief''),
            (''cdp'', ''show cdp neighbors detail'')]"
    by (simp add: switch1_def ios_commands)
  have v1: "first_item (Parsed [switch1_version]) = Inr (DictItem switch1_version)"
    by (simp add: first_item_def)
  have p1: "find_prompt switch1 = Inr ''sw1#''" by (simp add: switch1_def)
  have i1: "items_of (Parsed switch1_interfaces) = map DictItem switch1_interfaces" by simp
  have c5: "example_net ''10.0.0.5'' ''admin'' ''pw'' [] = Inr firewall5"
    by (simp add: example_net_def)
  have m5: "map_of COMMAND_MAP (device_type firewall5) =
      Some [(''version'', ''show version''), (''interfaces'', ''show interface ip brief'')]"
    by (simp add: firewall5_def asa_commands)
  have v5: "first_item (Parsed [firewall5_version]) = Inr (DictItem firewall5_version)"
    by (simp add: first_item_def)
  have p5: "find_prompt firewall5 = Inr ''fw5# ''" by (simp add: firewall5_def)
  have l5: "build_cdp_lookup (Parsed []) = Inr Map.empty" by (simp add: build_cdp_lookup_def)
  have i5: "items_of (Parsed []) = map DictItem []" by simp
  show ?thesis
    using rows_per_interface_record [where ConnectHandler = example_net,
        OF c1 m1 switch1_data v1 p1 switch1_lookup i1]
      rows_per_interface_record [where ConnectHandler = example_net,
        OF c5 m5 firewall5_data v5 p5 l5 i5]
    by (simp add: switch1_interfaces_def)
qed

text \<open>
  Claim C3 as stated fails. The firewall's version record has no hostname, so the hostname
  of its summary row is not copied from that record: it is the prompt \<^verbatim>\<open>fw5# \<close> without
  \<^verbatim>\<open>#\<close> and stripped, \<^verbatim>\<open>fw5\<close>. And a parsed version record does not by itself lead to rows:
  the sixth switch has one and no interface records, yet it gets no summary row, because
  its neighbor records lack the key \<^verbatim>\<open>local_port\<close>, the lookup raises KeyError, and the only
  row is the generic failure row.
\<close>

theorem rows_per_interface_record_counterexample:
  "task_rows example_net ''admin'' ''pw'' [] ''10.0.0.5'' =
     [[(''hostname'', PStr ''fw5''), (''ip_address'', PStr ''10.0.0.5''),
       (''model'', PStr ''ASA5506''), (''version'', PStr ''9.8''), (''status'', PStr ''OK'')]] \<and>
   dict_get firewall5_version ''hostname'' = PNone \<and>
   task_rows example_net ''admin'' ''pw'' [] ''10.0.0.6'' =
     [failure_row ''10.0.0.6'' (''Error: '' @ quote ''local_port'')]"
  by code_simp

section \<open>The neighbor lookup\<close>

lemma cdp_entry_Inr:
  assumes "cdp_entry x = Inr (k, v)"
  shows "\<exists>d nb ma pf rp. x = DictItem d \<and>
           map_of d ''local_port'' = Some k \<and>
           map_of d ''destination_host'' = Some nb \<and>
           map_of d ''management_ip'' = Some ma \<and>
           map_of d ''platform'' = Some pf \<and>
           map_of d ''remote_port'' = Some rp \<and>
           v = [(''neighbor'', nb), (''neighbor_ip'', ma),
                (''neighbor_platform'', pf), (''neighbor_port'', rp)]"
  using assms
  by (cases x) (auto simp: subscript_def type_error_index_def split: option.splits)

lemma cdp_entry_key:
  "cdp_entry (DictItem d) = Inr (k, v) \<Longrightarrow> map_of d ''local_port'' = Some k"
  by (drule cdp_entry_Inr) auto

lemma cdp_fold_Cons_Inr:
  assumes "cdp_fold acc (x # xs) = Inr lk"
  shows "\<exists>k v. cdp_entry x = Inr (k, v) \<and> cdp_fold (acc(k \<mapsto> v)) xs = Inr lk"
proof (cases "cdp_entry x")
  case (Inl e)
  with assms show ?thesis by simp
next
  case (Inr kv)
  with assms show ?thesis by (cases kv) simp
qed

lemma cdp_fold_append:
  "cdp_fold acc (xs @ ys) =
     (case cdp_fold acc xs of Inl e \<Rightarrow> Inl e | Inr m \<Rightarrow> cdp_fold m ys)"
  by (induction xs arbitrary: acc) (auto split: sum.splits)

lemma cdp_fold_untouched:
  assumes "cdp_fold acc ys = Inr lk"
    and "\<forall>d. DictItem d \<in> set ys \<longrightarrow> map_of d ''local_port'' \<noteq> Some k"
  shows "lk k = acc k"
  using assms
proof (induction ys arbitrary: acc)
  case Nil
  then show ?case by simp
next
  case (Cons y ys)
  from cdp_fold_Cons_Inr [OF Cons.prems(1)] obtain k' v' where e: "cdp_entry y = Inr (k', v')"
    and f: "cdp_fold (acc(k' \<mapsto> v')) ys = Inr lk"
    by blast
  from cdp_entry_Inr [OF e] obtain d where y: "y = DictItem d"
    and kd: "map_of d ''local_port'' = Some k'" by blast
  from Cons.prems(2) y kd have "k' \<noteq> k" by auto
  moreover have "lk k = (acc(k' \<mapsto> v')) k"
    using Cons.IH [OF f] Cons.prems(2) by simp
  ultimately show ?case by simp
qed

lemma cdp_fold_last_wins:
  assumes "cdp_fold acc (before @ DictItem d # after) = Inr lk"
    and "cdp_entry (DictItem d) = Inr (k, v)"
    and "\<forall>d'. DictItem d' \<in> set after \<longrightarrow> map_of d' ''local_port'' \<noteq> Some k"
  shows "lk k = Some v"
proof -
  from assms(1) obtain m where m: "cdp_fold acc before = Inr m"
    and r: "cdp_fold m (DictItem d # after) = Inr lk"
    by (auto simp: cdp_fold_append split: sum.splits)
  from r assms(2) have "cdp_fold (m(k \<mapsto> v)) after = Inr lk" by simp
  from cdp_fold_untouched [OF this assms(3)] show ?thesis by simp
qed

lemma cdp_fold_dom:
  "cdp_fold acc xs = Inr lk \<Longrightarrow>
   dom lk = dom acc \<union> {k. \<exists>d. DictItem d \<in> set xs \<and> map_of d ''local_port'' = Some k}"
proof (induction xs arbitrary: acc)
  case Nil
  then show ?case by simp
next
  case (Cons x xs)
  from cdp_fold_Cons_Inr [OF Cons.prems] obtain k' v' where e: "cdp_entry x = Inr (k', v')"
    and f: "cdp_fold (acc(k' \<mapsto> v')) xs = Inr lk"
    by blast
  from cdp_entry_Inr [OF e] obtain d where x: "x = DictItem d"
    and kd: "map_of d ''local_port'' = Some k'" by blast
  have s: "{k. \<exists>d'. DictItem d' \<in> set (x # xs) \<and> map_of d' ''local_port'' = Some k} =
      insert k' {k. \<exists>d'. DictItem d' \<in> set xs \<and> map_of d' ''local_port'' = Some k}"
    using x kd by auto
  have d: "dom (acc(k' \<mapsto> v')) = insert k' (dom acc)" by simp
  have "dom lk = insert k' (dom acc) \<union>
      {k. \<exists>d'. DictItem d' \<in> set xs \<and> map_of d' ''local_port'' = Some k}"
    using Cons.IH [OF f] unfolding d .
  then show ?case unfolding s by (simp only: Un_insert_left Un_insert_right)
qed

lemma cdp_fold_entries:
  "cdp_fold acc xs = Inr lk \<Longrightarrow> lk k = Some v \<Longrightarrow>
   acc k = Some v \<or> (\<exists>x \<in> set xs. cdp_entry x = Inr (k, v))"
proof (induction xs arbitrary: acc)
  case Nil
  then show ?case by simp
next
  case (Cons x xs)
  from cdp_fold_Cons_Inr [OF Cons.prems(1)] obtain k' v' where e: "cdp_entry x = Inr (k', v')"
    and f: "cdp_fold (acc(k' \<mapsto> v')) xs = Inr lk"
    by blast
  from Cons.IH [OF f Cons.prems(2)] e show ?case by (auto split: if_splits)
qed

lemma lookup_entry_complete:
  assumes "build_cdp_lookup cdp_data = Inr lk" and "lk k = Some v"
  shows "\<exists>nb ma pf rp. v = [(''neighbor'', nb), (''neighbor_ip'', ma),
                             (''neighbor_platform'', pf), (''neighbor_port'', rp)]"
proof -
  from cdp_fold_entries [of Map.empty "items_of cdp_data" lk k v] assms
  obtain x where "cdp_entry x = Inr (k, v)" by (auto simp: build_cdp_lookup_def)
  from cdp_entry_Inr [OF this] show ?thesis by blast
qed

lemma neighbor_cells_interface_row:
  "neighbor_cells (interface_row h ip d lk i) =
     [Some (dict_get (cdp_lookup_get lk (dict_get i ''intf'')) ''neighbor''),
      Some (dict_get (cdp_lookup_get lk (dict_get i ''intf'')) ''neighbor_platform''),
      Some (dict_get (cdp_lookup_get lk (dict_get i ''intf'')) ''neighbor_port'')]"
  by (simp add: neighbor_cells_def interface_row_cells)

lemma cdp_lookup_get_unmatched:
  "\<not> (\<exists>k. name = PStr k \<and> k \<in> dom lk) \<Longrightarrow> cdp_lookup_get lk name = []"
  by (auto simp: cdp_lookup_get_def split: pyval.splits option.splits)

lemma cdp_lookup_get_matched:
  "lk k = Some entry \<Longrightarrow> cdp_lookup_get lk (PStr k) = entry"
  by (simp add: cdp_lookup_get_def)

lemma complete_entry_cells:
  "v = [(''neighbor'', nb), (''neighbor_ip'', ma), (''neighbor_platform'', pf),
        (''neighbor_port'', rp)] \<Longrightarrow>
   dict_get v ''neighbor'' = PStr nb \<and> dict_get v ''neighbor_platform'' = PStr pf \<and>
   dict_get v ''neighbor_port'' = PStr rp"
  by (simp add: dict_get_def)

text \<open>The neighbor cells of one interface row, for a lookup the comprehension built.\<close>

lemma interface_row_neighbors:
  assumes lk: "build_cdp_lookup cdp_data = Inr lk"
  shows "((\<exists>k. dict_get i ''intf'' = PStr k \<and> k \<in> dom lk) \<longleftrightarrow>
            list_all (\<lambda>c. \<exists>s. c = Some (PStr s)) (neighbor_cells (interface_row h ip d lk i))) \<and>
         (\<not> (\<exists>k. dict_get i ''intf'' = PStr k \<and> k \<in> dom lk) \<longrightarrow>
            neighbor_cells (interface_row h ip d lk i) = [Some PNone, Some PNone, Some PNone]) \<and>
         (\<forall>k entry. dict_get i ''intf'' = PStr k \<and> lk k = Some entry \<longrightarrow>
            neighbor_cells (interface_row h ip d lk i) =
              [Some (dict_get entry ''neighbor''), Some (dict_get entry ''neighbor_platform''),
               Some (dict_get entry ''neighbor_port'')])"
proof (cases "\<exists>k. dict_get i ''intf'' = PStr k \<and> k \<in> dom lk")
  case True
  then obtain k entry where k: "dict_get i ''intf'' = PStr k" and e: "lk k = Some entry"
    by auto
  from lookup_entry_complete [OF lk e] obtain nb ma pf rp where
    v: "entry = [(''neighbor'', nb), (''neighbor_ip'', ma), (''neighbor_platform'', pf),
                 (''neighbor_port'', rp)]" by blast
  show ?thesis
    using True k e complete_entry_cells [OF v]
    by (simp add: neighbor_cells_interface_row cdp_lookup_get_matched)
next
  case False
  from cdp_lookup_get_unmatched [OF False]
  have u: "cdp_lookup_get lk (dict_get i ''intf'') = []" .
  show ?thesis
    using False by (auto simp: neighbor_cells_interface_row u dict_get_Nil)
qed

text \<open>
  What holds once the neighbor lookup has been built. Take a device whose session reaches
  the interface loop with at least one parsed interface record. Every interface record gets
  its row, in order; the row's interface cell is the record's \<^verbatim>\<open>intf\<close>. The three neighbor
  cells all hold strings exactly when that interface name is a key of the neighbor lookup,
  and then they are the lookup's entry; otherwise all three are None. The keys of the
  lookup are the \<^verbatim>\<open>local_port\<close> values of the neighbor records, and for a name that occurs
  in several records the entry comes from the last of them.
\<close>

lemma interface_rows_follow_lookup:
  assumes "ConnectHandler ip usr pwd sec = Inr net_connect"
    and "map_of COMMAND_MAP (device_type net_connect) = Some commands"
    and "snd (get_structured_data net_connect commands) =
           Inr (version_data, interface_data, cdp_data)"
    and "first_item version_data = Inr (DictItem device_info)"
    and "find_prompt net_connect = Inr prompt"
    and "build_cdp_lookup cdp_data = Inr cdp_lookup"
    and "items_of interface_data = map DictItem ifaces"
    and "ifaces \<noteq> []"
  shows "length (task_rows ConnectHandler usr pwd sec ip) = length ifaces \<and>
    (\<forall>n < length ifaces.
       map_of (task_rows ConnectHandler usr pwd sec ip ! n) ''interface'' =
         Some (dict_get (ifaces ! n) ''intf'') \<and>
       ((\<exists>k. dict_get (ifaces ! n) ''intf'' = PStr k \<and> k \<in> dom cdp_lookup) \<longleftrightarrow>
          list_all (\<lambda>c. \<exists>s. c = Some (PStr s))
            (neighbor_cells (task_rows ConnectHandler usr pwd sec ip ! n))) \<and>
       (\<not> (\<exists>k. dict_get (ifaces ! n) ''intf'' = PStr k \<and> k \<in> dom cdp_lookup) \<longrightarrow>
          neighbor_cells (task_rows ConnectHandler usr pwd sec ip ! n) =
            [Some PNone, Some PNone, Some PNone]) \<and>
       (\<forall>k entry. dict_get (ifaces ! n) ''intf'' = PStr k \<and> cdp_lookup k = Some entry \<longrightarrow>
          neighbor_cells (task_rows ConnectHandler usr pwd sec ip ! n) =
            [Some (dict_get entry ''neighbor''), Some (dict_get entry ''neighbor_platform''),
             Some (dict_get entry ''neighbor_port'')])) \<and>
    dom cdp_lookup =
      {k. \<exists>d. DictItem d \<in> set (items_of cdp_data) \<and> map_of d ''local_port'' = Some k} \<and>
    (\<forall>before d after k v.
       items_of cdp_data = before @ DictItem d # after \<and>
       cdp_entry (DictItem d) = Inr (k, v) \<and>
       (\<forall>d'. DictItem d' \<in> set after \<longrightarrow> map_of d' ''local_port'' \<noteq> Some k) \<longrightarrow>
       cdp_lookup k = Some v)"
proof -
  let ?h = "dict_get_default device_info ''hostname'' (strip (remove_hash prompt))"
  have rows: "task_rows ConnectHandler usr pwd sec ip =
      map (interface_row ?h ip device_info cdp_lookup) ifaces"
    using task_rows_correlated [where ConnectHandler = ConnectHandler, OF assms(1-7)] assms(8)
    by simp
  have nth: "\<And>n. n < length ifaces \<Longrightarrow>
      task_rows ConnectHandler usr pwd sec ip ! n =
        interface_row ?h ip device_info cdp_lookup (ifaces ! n)"
    by (simp add: rows)
  have fold: "cdp_fold Map.empty (items_of cdp_data) = Inr cdp_lookup"
    using assms(6) by (simp add: build_cdp_lookup_def)
  have "length (task_rows ConnectHandler usr pwd sec ip) = length ifaces"
    by (simp add: rows)
  moreover have "\<forall>n < length ifaces.
       map_of (task_rows ConnectHandler usr pwd sec ip ! n) ''interface'' =
         Some (dict_get (ifaces ! n) ''intf'') \<and>
       ((\<exists>k. dict_get (ifaces ! n) ''intf'' = PStr k \<and> k \<in> dom cdp_lookup) \<longleftrightarrow>
          list_all (\<lambda>c. \<exists>s. c = Some (PStr s))
            (neighbor_cells (task_rows ConnectHandler usr pwd sec ip ! n))) \<and>
       (\<not> (\<exists>k. dict_get (ifaces ! n) ''intf'' = PStr k \<and> k \<in> dom cdp_lookup) \<longrightarrow>
          neighbor_cells (task_rows ConnectHandler usr pwd sec ip ! n) =
            [Some PNone, Some PNone, Some PNone]) \<and>
       (\<forall>k entry. dict_get (ifaces ! n) ''intf'' = PStr k \<and> cdp_lookup k = Some entry \<longrightarrow>
          neighbor_cells (task_rows ConnectHandler usr pwd sec ip ! n) =
            [Some (dict_get entry ''neighbor''), Some (dict_get entry ''neighbor_platform''),
             Some (dict_get entry ''neighbor_port'')])"
  proof (intro allI impI)
    fix n assume n: "n < length ifaces"
    show "map_of (task_rows ConnectHandler usr pwd sec ip ! n) ''interface'' =
         Some (dict_get (ifaces ! n) ''intf'') \<and>
       ((\<exists>k. dict_get (ifaces ! n) ''intf'' = PStr k \<and> k \<in> dom cdp_lookup) \<longleftrightarrow>
          list_all (\<lambda>c. \<exists>s. c = Some (PStr s))
            (neighbor_cells (task_rows ConnectHandler usr pwd sec ip ! n))) \<and>
       (\<not> (\<exists>k. dict_get (ifaces ! n) ''intf'' = PStr k \<and> k \<in> dom cdp_lookup) \<longrightarrow>
          neighbor_cells (task_rows ConnectHandler usr pwd sec ip ! n) =
            [Some PNone, Some PNone, Some PNone]) \<and>
       (\<forall>k entry. dict_get (ifaces ! n) ''intf'' = PStr k \<and> cdp_lookup k = Some entry \<longrightarrow>
          neighbor_cells (task_rows ConnectHandler usr pwd sec ip ! n) =
            [Some (dict_get entry ''neighbor''), Some (dict_get entry ''neighbor_platform''),
             Some (dict_get entry ''neighbor_port'')])"
      unfolding nth [OF n]
      using interface_row_neighbors [OF assms(6), of "ifaces ! n" ?h ip device_info]
        interface_row_cells(5) [of ?h ip device_info cdp_lookup "ifaces ! n"]
      by blast
  qed
  moreover have "dom cdp_lookup =
      {k. \<exists>d. DictItem d \<in> set (items_of cdp_data) \<and> map_of d ''local_port'' = Some k}"
    using cdp_fold_dom [OF fold] by simp
  moreover have "\<forall>before d after k v.
       items_of cdp_data = before @ DictItem d # after \<and>
       cdp_entry (DictItem d) = Inr (k, v) \<and>
       (\<forall>d'. DictItem d' \<in> set after \<longrightarrow> map_of d' ''local_port'' \<noteq> Some k) \<longrightarrow>
       cdp_lookup k = Some v"
  proof (intro allI impI)
    fix before d after k v
    assume h: "items_of cdp_data = before @ DictItem d # after \<and>
       cdp_entry (DictItem d) = Inr (k, v) \<and>
       (\<forall>d'. DictItem d' \<in> set after \<longrightarrow> map_of d' ''local_port'' \<noteq> Some k)"
    from fold h have f: "cdp_fold Map.empty (before @ DictItem d # after) = Inr cdp_lookup"
      by simp
    from h have e: "cdp_entry (DictItem d) = Inr (k, v)"
      and a: "\<forall>d'. DictItem d' \<in> set after \<longrightarrow> map_of d' ''local_port'' \<noteq> Some k"
      by simp_all
    from cdp_fold_last_wins [OF f e a] show "cdp_lookup k = Some v" .
  qed
  ultimately show ?thesis by (intro conjI)
qed

lemma interface_rows_follow_lookup_example:
  "length (task_rows example_net ''admin'' ''pw'' [] ''10.0.0.1'') = 2 \<and>
   neighbor_cells (task_rows example_net ''admin'' ''pw'' [] ''10.0.0.1'' ! 0) =
     [Some (PStr ''sw2''), Some (PStr ''WS-C2960''), Some (PStr ''Gi1/1'')] \<and>
   neighbor_cells (task_rows example_net ''admin'' ''pw'' [] ''10.0.0.1'' ! 1) =
     [Some PNone, Some PNone, Some PNone]"
proof -
  have c: "example_net ''10.0.0.1'' ''admin'' ''pw'' [] = Inr switch1"
    by (simp add: example_net_def)
  have m: "map_of COMMAND_MAP (device_type switch1) =
      Some [(''version'', ''show version''), (''interfaces'', ''show ip interface brief''),
            (''cdp'', ''show cdp neighbors detail'')]"
    by (simp add: switch1_def ios_commands)
  have v: "first_item (Parsed [switch1_version]) = Inr (DictItem switch1_version)"
    by (simp add: first_item_def)
  have p: "find_prompt switch1 = Inr ''sw1#''" by (simp add: switch1_def)
  have i: "items_of (Parsed switch1_interfaces) = map DictItem switch1_interfaces" by simp
  have ne: "switch1_interfaces \<noteq> []" by (simp add: switch1_interfaces_def)
  note t = interface_rows_follow_lookup [where ConnectHandler = example_net,
      OF c m switch1_data v p switch1_lookup i ne]
  have len: "length (task_rows example_net ''admin'' ''pw'' [] ''10.0.0.1'') = 2"
    using t [THEN conjunct1] by (simp add: switch1_interfaces_def)
  have n0: "(0::nat) < length switch1_interfaces" and n1: "(1::nat) < length switch1_interfaces"
    by (simp_all add: switch1_interfaces_def)
  have k0: "dict_get (switch1_interfaces ! 0) ''intf'' = PStr ''Gi0/1''"
    and k1: "dict_get (switch1_interfaces ! 1) ''intf'' = PStr ''Gi0/2''"
    by (simp_all add: switch1_interfaces_def dict_get_def)
  have e0: "(Map.empty(''Gi0/1'' \<mapsto>
       [(''neighbor'', ''sw2''), (''neighbor_ip'', ''10.0.0.9''),
        (''neighbor_platform'', ''WS-C2960''), (''neighbor_port'', ''Gi1/1'')])) ''Gi0/1'' =
     Some [(''neighbor'', ''sw2''), (''neighbor_ip'', ''10.0.0.9''),
        (''neighbor_platform'', ''WS-C2960''), (''neighbor_port'', ''Gi1/1'')]"
    by simp
  have u1: "\<not> (\<exists>k. dict_get (switch1_interfaces ! 1) ''intf'' = PStr k \<and>
      k \<in> dom (Map.empty(''Gi0/1'' \<mapsto>
       [(''neighbor'', ''sw2''), (''neighbor_ip'', ''10.0.0.9''),
        (''neighbor_platform'', ''WS-C2960''), (''neighbor_port'', ''Gi1/1'')])))"
    unfolding k1 by simp
  note q0 = t [THEN conjunct2, THEN conjunct1, rule_format, OF n0]
  note q1 = t [THEN conjunct2, THEN conjunct1, rule_format, OF n1]
  have r0: "neighbor_cells (task_rows example_net ''admin'' ''pw'' [] ''10.0.0.1'' ! 0) =
     [Some (PStr ''sw2''), Some (PStr ''WS-C2960''), Some (PStr ''Gi1/1'')]"
    using q0 [THEN conjunct2, THEN conjunct2, THEN conjunct2, rule_format, OF conjI [OF k0 e0]]
    by (simp add: dict_get_def)
  have r1: "neighbor_cells (task_rows example_net ''admin'' ''pw'' [] ''10.0.0.1'' ! 1) =
     [Some PNone, Some PNone, Some PNone]"
    using q1 [THEN conjunct2, THEN conjunct2, THEN conjunct1, rule_format, OF u1] .
  from len r0 r1 show ?thesis by simp
qed

text \<open>
  Claim C4 on the ninth switch. It has one parsed interface record and no neighbors, so the
  neighbor command returns its text unparsed. The comprehension that builds the lookup
  subscripts the first character of that text with \<^verbatim>\<open>'local_port'\<close> and raises TypeError
  before the interface loop starts: the device gets the generic failure row and no row for
  its interface. The claim says the interface row is still written.
\<close>

theorem unparsed_neighbors_suppress_rows:
  "snd (get_structured_data switch9
     [(''version'', ''show version''), (''interfaces'', ''show ip interface brief''),
      (''cdp'', ''show cdp neighbors detail'')]) =
     Inr (Parsed [[(''hostname'', ''sw9''), (''hardware'', ''WS-C2960''), (''version'', ''15.2'')]],
          Parsed switch9_interfaces,
          Raw ''Total cdp entries displayed : 0'') \<and>
   length switch9_interfaces = 1 \<and>
   build_cdp_lookup (Raw ''Total cdp entries displayed : 0'') = Inl type_error_index \<and>
   task_rows example_net ''admin'' ''pw'' [] ''10.0.0.9'' =
     [failure_row ''10.0.0.9'' (''Error: '' @ exc_str type_error_index)] \<and>
   list_all (\<lambda>r. map_of r ''interface'' = None)
     (task_rows example_net ''admin'' ''pw'' [] ''10.0.0.9'')"
proof -
  have a: "snd (get_structured_data switch9
     [(''version'', ''show version''), (''interfaces'', ''show ip interface brief''),
      (''cdp'', ''show cdp neighbors detail'')]) =
     Inr (Parsed [[(''hostname'', ''sw9''), (''hardware'', ''WS-C2960''), (''version'', ''15.2'')]],
          Parsed switch9_interfaces,
          Raw ''Total cdp entries displayed : 0'')"
    by (simp add: get_structured_data_eq subscript_def switch9_def)
  have b: "length switch9_interfaces = 1" by (simp add: switch9_interfaces_def)
  have c: "build_cdp_lookup (Raw ''Total cdp entries displayed : 0'') = Inl type_error_index"
    by (simp add: build_cdp_lookup_def)
  have d: "task_rows example_net ''admin'' ''pw'' [] ''10.0.0.9'' =
     [failure_row ''10.0.0.9'' (''Error: '' @ exc_str type_error_index)]"
    by code_simp
  have e: "list_all (\<lambda>r. map_of r ''interface'' = None)
     (task_rows example_net ''admin'' ''pw'' [] ''10.0.0.9'')"
    unfolding d by (simp add: failure_row_def)
  show ?thesis by (intro conjI a b c d e)
qed

section \<open>The queue and its completion counter\<close>

lemma count_task_done_append:
  "count_task_done (xs @ ys) = count_task_done xs + count_task_done ys"
  by (simp add: count_task_done_def)

lemma count_task_done_with_body: "count_task_done (fst (with_body nc ip)) = 0"
  by (simp add: with_body_eq get_structured_data_eq correlate_eq count_task_done_def
      split: option.splits sum.splits item.splits cmd_output.splits prod.splits)

lemma count_task_done_try_block: "count_task_done (fst (try_block CH u p s ip)) = 0"
  using count_task_done_with_body
  by (simp add: try_block_eq count_task_done_def split: sum.splits)

lemma count_task_done_body: "count_task_done (fst (device_worker_body CH u p s ip)) = 1"
  using count_task_done_try_block [of CH u p s ip]
  by (simp add: device_worker_body_eq count_task_done_def split: sum.splits)

lemma sum_list_map_update:
  fixes f :: "'a \<Rightarrow> 'b multiset"
  shows "i < length xs \<Longrightarrow>
    sum_list (map f (xs[i := y])) + f (xs ! i) = sum_list (map f xs) + f y"
proof (induction xs arbitrary: i)
  case Nil
  then show ?case by simp
next
  case (Cons x xs)
  show ?case
  proof (cases i)
    case 0
    then show ?thesis by (simp add: ac_simps)
  next
    case (Suc j)
    with Cons.prems have "j < length xs" by simp
    from Cons.IH [OF this] Suc show ?thesis by (simp add: ac_simps)
  qed
qed

lemma pending_all_update:
  "i < length ths \<Longrightarrow>
   pending_all (ths[i := t]) + pending (ths ! i) = pending_all ths + pending t"
  unfolding pending_all_def by (rule sum_list_map_update)

lemma pending_all_same:
  assumes "i < length ths" and "pending t = pending (ths ! i)"
  shows "pending_all (ths[i := t]) = pending_all ths"
  using pending_all_update [OF assms(1), of t] assms(2) by simp

lemma pending_all_add:
  assumes "i < length ths" and "pending (ths ! i) = {#}"
  shows "pending_all (ths[i := t]) = pending_all ths + pending t"
  using pending_all_update [OF assms(1), of t] assms(2) by simp

lemma pending_all_remove:
  assumes "i < length ths" and "pending (ths ! i) = add_mset ip (pending t)"
  shows "pending_all ths = add_mset ip (pending_all (ths[i := t]))"
  using pending_all_update [OF assms(1), of t] assms(2) by simp

lemma list_all_update:
  "list_all P xs \<Longrightarrow> P y \<Longrightarrow> list_all P (xs[i := y])"
  by (auto simp: list_all_iff dest: set_update_subset_insert [THEN subsetD])

lemma threads_set_thread [simp]: "threads (set_thread i t st) = (threads st)[i := t]"
  and work_queue_set_thread [simp]: "work_queue (set_thread i t st) = work_queue st"
  and unfinished_set_thread [simp]: "unfinished_tasks (set_thread i t st) = unfinished_tasks st"
  and popped_set_thread [simp]: "popped (set_thread i t st) = popped st"
  and marked_done_set_thread [simp]: "marked_done (set_thread i t st) = marked_done st"
  and lock_set_thread [simp]: "lock (set_thread i t st) = lock st"
  and csvfile_set_thread [simp]: "csvfile (set_thread i t st) = csvfile st"
  by (simp_all add: set_thread_def)

lemma queue_inv_same:
  assumes inv: "queue_inv devices st"
    and i: "i < length (threads st)"
    and p: "pending t = pending (threads st ! i)"
    and n: "returns_normally t"
    and same: "work_queue st' = work_queue st" "unfinished_tasks st' = unfinished_tasks st"
      "popped st' = popped st" "marked_done st' = marked_done st" "threads st' = threads st"
  shows "queue_inv devices (set_thread i t st')"
proof -
  have "pending_all ((threads st)[i := t]) = pending_all (threads st)"
    using pending_all_same [OF i p] .
  moreover have "list_all returns_normally ((threads st)[i := t])"
    using inv n by (simp add: queue_inv_def list_all_update)
  ultimately show ?thesis using inv same by (simp add: queue_inv_def)
qed

lemma queue_inv_thread:
  assumes "queue_inv devices st" and "i < length (threads st)"
  shows "returns_normally (threads st ! i)"
  using assms by (simp add: queue_inv_def list_all_length)

lemma queue_inv_pop:
  assumes inv: "queue_inv devices st"
    and i: "i < length (threads st)"
    and at: "threads st ! i = AtGet"
    and q: "work_queue st = ip # rest"
    and c: "count_task_done evs = 1"
  shows "queue_inv devices
           (set_thread i (Running ip evs (Inr ()))
              (st\<lparr>work_queue := rest, popped := popped st @ [ip]\<rparr>))"
proof -
  have "pending (threads st ! i) = {#}" using at by simp
  from pending_all_add [OF i this, of "Running ip evs (Inr ())"] c
  have pa: "pending_all ((threads st)[i := Running ip evs (Inr ())]) =
      add_mset ip (pending_all (threads st))" by simp
  have "list_all returns_normally ((threads st)[i := Running ip evs (Inr ())])"
    using inv by (simp add: queue_inv_def list_all_update)
  then show ?thesis using inv q pa by (simp add: queue_inv_def)
qed

lemma queue_inv_task_done:
  assumes inv: "queue_inv devices st"
    and i: "i < length (threads st)"
    and at: "threads st ! i = Running ip (TaskDone # evs) r"
  shows "unfinished_tasks st \<noteq> 0 \<and>
         queue_inv devices
           (set_thread i (Running ip evs r)
              (st\<lparr>unfinished_tasks := unfinished_tasks st - 1,
                  marked_done := marked_done st @ [ip]\<rparr>))"
proof -
  have r: "r = Inr ()" using queue_inv_thread [OF inv i] at by simp
  have "pending (threads st ! i) = add_mset ip (pending (Running ip evs r))"
    using at by (simp add: count_task_done_def)
  from pending_all_remove [OF i this]
  have pa: "pending_all (threads st) =
      add_mset ip (pending_all ((threads st)[i := Running ip evs r]))" .
  have n: "list_all returns_normally ((threads st)[i := Running ip evs r])"
    using inv r by (simp add: queue_inv_def list_all_update)
  have u: "unfinished_tasks st =
      Suc (length (work_queue st) + size (pending_all ((threads st)[i := Running ip evs r])))"
    using inv pa by (simp add: queue_inv_def)
  have m: "mset (marked_done st) +
      add_mset ip (pending_all ((threads st)[i := Running ip evs r])) = mset (popped st)"
    using inv pa by (simp add: queue_inv_def)
  show ?thesis using inv n u m by (simp add: queue_inv_def)
qed

lemma queue_inv_do_event:
  assumes inv: "queue_inv devices st"
    and i: "i < length (threads st)"
    and at: "threads st ! i = Running ip (ev # evs) r"
  shows "queue_inv devices (do_event i ip ev evs r st)"
proof -
  have r: "r = Inr ()" using queue_inv_thread [OF inv i] at by simp
  show ?thesis
  proof (cases ev)
    case (Wrote row)
    show ?thesis
    proof (cases "lock st")
      case None
      have "queue_inv devices
          (set_thread i (Writing ip row (dict_to_list row) evs r) (st\<lparr>lock := Some i\<rparr>))"
        by (rule queue_inv_same [OF inv i])
           (simp_all add: at Wrote r count_task_done_def)
      with Wrote None show ?thesis by simp
    next
      case (Some holder)
      with Wrote inv show ?thesis by simp
    qed
  next
    case TaskDone
    from queue_inv_task_done [OF inv i at [unfolded TaskDone]] TaskDone
    show ?thesis by simp
  next
    case PbarUpdate
    have "queue_inv devices (set_thread i (Running ip evs r) (st\<lparr>pbar := pbar st + 1\<rparr>))"
      by (rule queue_inv_same [OF inv i]) (simp_all add: at PbarUpdate r count_task_done_def)
    with PbarUpdate show ?thesis by simp
  next
    case Connected
    have "queue_inv devices (set_thread i (Running ip evs r) st)"
      by (rule queue_inv_same [OF inv i]) (simp_all add: at Connected r count_task_done_def)
    with Connected show ?thesis by simp
  next
    case (Sent c)
    have "queue_inv devices (set_thread i (Running ip evs r) st)"
      by (rule queue_inv_same [OF inv i]) (simp_all add: at Sent r count_task_done_def)
    with Sent show ?thesis by simp
  next
    case Prompt
    have "queue_inv devices (set_thread i (Running ip evs r) st)"
      by (rule queue_inv_same [OF inv i]) (simp_all add: at Prompt r count_task_done_def)
    with Prompt show ?thesis by simp
  next
    case Disconnected
    have "queue_inv devices (set_thread i (Running ip evs r) st)"
      by (rule queue_inv_same [OF inv i]) (simp_all add: at Disconnected r count_task_done_def)
    with Disconnected show ?thesis by simp
  qed
qed

lemma queue_inv_step:
  assumes inv: "queue_inv devices st"
  shows "queue_inv devices (step cfg i st)"
proof (cases "length (threads st) \<le> i")
  case True
  with inv show ?thesis by (simp add: step_def)
next
  case False
  then have i: "i < length (threads st)" by simp
  show ?thesis
  proof (cases "threads st ! i")
    case AtEmptyCheck
    have "queue_inv devices (set_thread i (if work_queue st = [] then Exited else AtGet) st)"
      by (rule queue_inv_same [OF inv i]) (simp_all add: AtEmptyCheck)
    with False AtEmptyCheck show ?thesis by (simp add: step_def)
  next
    case AtGet
    show ?thesis
    proof (cases "work_queue st")
      case Nil
      with False AtGet inv show ?thesis by (simp add: step_def)
    next
      case (Cons ip rest)
      obtain evs r where b: "device_worker_body (connect cfg) (username cfg) (password cfg)
          (secret cfg) ip = (evs, r)"
        by (cases "device_worker_body (connect cfg) (username cfg) (password cfg) (secret cfg) ip")
      have r: "r = Inr ()"
        using device_worker_body_returns
          [of "connect cfg" "username cfg" "password cfg" "secret cfg" ip] b by simp
      have c: "count_task_done evs = 1"
        using count_task_done_body
          [of "connect cfg" "username cfg" "password cfg" "secret cfg" ip] b by simp
      from queue_inv_pop [OF inv i AtGet Cons c] False AtGet Cons b r
      show ?thesis by (simp add: step_def)
    qed
  next
    case (Running ip evs r)
    show ?thesis
    proof (cases evs)
      case Nil
      have r: "r = Inr ()" using queue_inv_thread [OF inv i] Running by simp
      have "queue_inv devices (set_thread i AtEmptyCheck st)"
        by (rule queue_inv_same [OF inv i]) (simp_all add: Running Nil count_task_done_def)
      with False Running Nil r show ?thesis by (simp add: step_def)
    next
      case (Cons ev evs')
      from queue_inv_do_event [OF inv i Running [unfolded Cons]] False Running Cons
      show ?thesis by (simp add: step_def)
    qed
  next
    case (Writing ip row left evs r)
    have r: "r = Inr ()" using queue_inv_thread [OF inv i] Writing by simp
    show ?thesis
    proof (cases left)
      case Nil
      have "queue_inv devices (set_thread i (Running ip evs r) (st\<lparr>lock := None\<rparr>))"
        by (rule queue_inv_same [OF inv i]) (simp_all add: Writing r)
      with False Writing Nil show ?thesis by (simp add: step_def)
    next
      case (Cons c cs)
      have "queue_inv devices
          (set_thread i (Writing ip row cs evs r) (st\<lparr>csvfile := csvfile st @ [c]\<rparr>))"
        by (rule queue_inv_same [OF inv i]) (simp_all add: Writing r)
      with False Writing Cons show ?thesis by (simp add: step_def)
    qed
  next
    case Exited
    with False inv show ?thesis by (simp add: step_def)
  next
    case (Died e)
    with False inv show ?thesis by (simp add: step_def)
  qed
qed

lemma sum_list_replicate_empty: "sum_list (replicate n ({#} :: 'a multiset)) = {#}"
  by (induction n) simp_all

lemma queue_inv_start: "queue_inv devices (main_start devices)"
  by (simp add: queue_inv_def main_start_def pending_all_def list_all_iff
      sum_list_replicate_empty)

lemma queue_inv_run:
  "queue_inv devices st \<Longrightarrow> queue_inv devices (run cfg sched st)"
  by (induction sched arbitrary: st) (simp_all add: queue_inv_step)

text \<open>
  Claim C8. At every point of every run, under every schedule: the device ids returned by
  \<^verbatim>\<open>get\<close> followed by the ids still in the queue are the list pushed by \<^verbatim>\<open>main\<close>, so no
  id is popped twice and none is dropped; the ids marked done are among the popped ones;
  no worker has died, in particular \<^verbatim>\<open>task_done\<close> was never called once too often; and
  the counter is zero, which is when \<^verbatim>\<open>work_queue.join()\<close> returns, exactly when every
  pushed id has been popped and marked done. Every pass through the loop body contains
  exactly one \<^verbatim>\<open>task_done\<close>, whatever the session provider does.
\<close>

theorem counter_zero_iff_all_done:
  "(queue_join_returns (run cfg sched (main_start devices)) \<longleftrightarrow>
      mset (popped (run cfg sched (main_start devices))) = mset devices \<and>
      mset (marked_done (run cfg sched (main_start devices))) = mset devices) \<and>
   popped (run cfg sched (main_start devices)) @
     work_queue (run cfg sched (main_start devices)) = devices \<and>
   mset (marked_done (run cfg sched (main_start devices))) \<subseteq>#
     mset (popped (run cfg sched (main_start devices))) \<and>
   list_all returns_normally (threads (run cfg sched (main_start devices))) \<and>
   (\<forall>ConnectHandler usr pwd sec ip.
      count_task_done (fst (device_worker_body ConnectHandler usr pwd sec ip)) = 1)"
proof -
  define st where "st = run cfg sched (main_start devices)"
  have inv: "queue_inv devices st"
    unfolding st_def by (rule queue_inv_run [OF queue_inv_start])
  then have pq: "popped st @ work_queue st = devices"
    and u: "unfinished_tasks st = length (work_queue st) + size (pending_all (threads st))"
    and m: "mset (marked_done st) + pending_all (threads st) = mset (popped st)"
    and n: "list_all returns_normally (threads st)"
    by (simp_all add: queue_inv_def)
  have sub: "mset (marked_done st) \<subseteq># mset (popped st)"
    using m by (metis mset_subset_eq_add_left)
  have iff: "queue_join_returns st \<longleftrightarrow>
      mset (popped st) = mset devices \<and> mset (marked_done st) = mset devices"
  proof
    assume "queue_join_returns st"
    then have "work_queue st = []" and "pending_all (threads st) = {#}"
      using u by (simp_all add: queue_join_returns_def)
    with pq m show "mset (popped st) = mset devices \<and> mset (marked_done st) = mset devices"
      by simp
  next
    assume a: "mset (popped st) = mset devices \<and> mset (marked_done st) = mset devices"
    then have "length (popped st) = length devices" by (metis size_mset)
    with pq have q: "work_queue st = []" by (metis append_eq_conv_conj length_0_conv length_drop diff_self_eq_0)
    from a m have "mset (marked_done st) + pending_all (threads st) = mset (marked_done st)"
      by simp
    then have "pending_all (threads st) = {#}" by simp
    with q u show "queue_join_returns st" by (simp add: queue_join_returns_def)
  qed
  show ?thesis
    using iff pq sub n count_task_done_body unfolding st_def by blast
qed

section \<open>A worker that never returns\<close>

lemma run_append: "run cfg (xs @ ys) st = run cfg ys (run cfg xs st)"
  by (induction xs arbitrary: st) simp_all

lemma blocked_step:
  assumes "threads st = [AtGet, Exited]" and "work_queue st = []"
  shows "step cfg i st = st"
proof (cases i)
  case 0
  with assms show ?thesis by (simp add: step_def)
next
  case (Suc j)
  with assms show ?thesis by (cases j) (simp_all add: step_def)
qed

lemma blocked_run:
  assumes "threads st = [AtGet, Exited]" and "work_queue st = []"
  shows "run cfg sched st = st"
  using assms by (induction sched) (simp_all add: blocked_step)

lemma race_state:
  "threads (run example_cfg race_schedule (main_start race_devices)) = [AtGet, Exited] \<and>
   work_queue (run example_cfg race_schedule (main_start race_devices)) = [] \<and>
   unfinished_tasks (run example_cfg race_schedule (main_start race_devices)) = 0 \<and>
   marked_done (run example_cfg race_schedule (main_start race_devices)) = race_devices"
  by code_simp

text \<open>
  Claim C2 on two devices, one that refuses the login and one that times out, with two
  workers. After the
  schedule \<open>race_schedule\<close> both devices are done and the counter is zero, so
  \<^verbatim>\<open>work_queue.join()\<close> returns; worker 1 has left its loop; worker 0 saw a non-empty queue
  at line 59 and now waits in \<^verbatim>\<open>work_queue.get()\<close> at line 60 for an item that never comes.
  Whatever the scheduler does afterwards, the state stays the same, worker 0 never ends,
  and \<^verbatim>\<open>main\<close> never gets past joining it.
\<close>

theorem worker_blocks_forever:
  "length (threads (main_start race_devices)) = 2 \<and>
   (\<forall>sched.
      threads (run example_cfg (race_schedule @ sched) (main_start race_devices)) =
        [AtGet, Exited] \<and>
      work_queue (run example_cfg (race_schedule @ sched) (main_start race_devices)) = [] \<and>
      marked_done (run example_cfg (race_schedule @ sched) (main_start race_devices)) =
        race_devices \<and>
      queue_join_returns (run example_cfg (race_schedule @ sched) (main_start race_devices)) \<and>
      \<not> main_completes (run example_cfg (race_schedule @ sched) (main_start race_devices)))"
proof -
  let ?st = "run example_cfg race_schedule (main_start race_devices)"
  have n: "length (threads (main_start race_devices)) = 2"
    by (simp add: main_start_def race_devices_def NUM_THREADS_def)
  have t: "threads ?st = [AtGet, Exited]" and q: "work_queue ?st = []"
    and u: "unfinished_tasks ?st = 0" and m: "marked_done ?st = race_devices"
    using race_state by simp_all
  have stay: "\<And>sched. run example_cfg (race_schedule @ sched) (main_start race_devices) = ?st"
    unfolding run_append by (rule blocked_run [OF t q])
  have "\<not> main_completes ?st" using t by (simp add: main_completes_def)
  moreover have "queue_join_returns ?st" using u by (simp add: queue_join_returns_def)
  ultimately show ?thesis using n t q m unfolding stay by simp
qed

section \<open>The writer's lock\<close>

lemma from_task_iff:
  "from_task cfg devices r \<longleftrightarrow>
     (\<exists>ip \<in> set devices.
        r \<in> set (task_rows (connect cfg) (username cfg) (password cfg) (secret cfg) ip))"
  by (simp add: from_task_def list_ex_iff)

lemma lock_inv_holder:
  assumes "lock_inv st" and "lock st = Some h"
  shows "h < length (threads st) \<and> is_writing (threads st ! h)"
  using assms by (simp add: lock_inv_def)

lemma lock_inv_free:
  assumes "lock_inv st" and "lock st = None" and "j < length (threads st)"
  shows "\<not> is_writing (threads st ! j)"
  using assms by (simp add: lock_inv_def list_all_length)

lemma lock_inv_only_holder:
  assumes "lock_inv st" and "lock st = Some h" and "j < length (threads st)"
    and "is_writing (threads st ! j)"
  shows "j = h"
proof -
  from assms(1,2) have "\<forall>j < length (threads st). is_writing (threads st ! j) \<longrightarrow> j = h"
    by (simp add: lock_inv_def)
  with assms(3,4) show ?thesis by blast
qed

lemma lock_inv_writer:
  assumes "lock_inv st" and "i < length (threads st)" and "is_writing (threads st ! i)"
  shows "lock st = Some i"
proof (cases "lock st")
  case None
  from lock_inv_free [OF assms(1) None assms(2)] assms(3) show ?thesis by blast
next
  case (Some h)
  from lock_inv_only_holder [OF assms(1) Some assms(2,3)] have "i = h" .
  with Some show ?thesis by blast
qed

lemma lock_invI_free:
  assumes "lock st = None" and "list_all (\<lambda>t. \<not> is_writing t) (threads st)"
  shows "lock_inv st"
  using assms by (simp add: lock_inv_def)

lemma lock_invI_held:
  assumes "lock st = Some h" and "h < length (threads st)" and "is_writing (threads st ! h)"
    and "\<And>j. j < length (threads st) \<Longrightarrow> is_writing (threads st ! j) \<Longrightarrow> j = h"
  shows "lock_inv st"
proof -
  have "lock_inv st =
      (h < length (threads st) \<and> is_writing (threads st ! h) \<and>
       (\<forall>j < length (threads st). is_writing (threads st ! j) \<longrightarrow> j = h))"
    unfolding lock_inv_def assms(1) by (simp only: option.case)
  moreover have "\<forall>j < length (threads st). is_writing (threads st ! j) \<longrightarrow> j = h"
    using assms(4) by blast
  ultimately show ?thesis using assms(2,3) by blast
qed

lemma in_progress_free: "lock st = None \<Longrightarrow> in_progress st = []"
  by (simp add: in_progress_def)

lemma in_progress_held: "lock st = Some h \<Longrightarrow> in_progress st = written_part (threads st ! h)"
  by (simp add: in_progress_def)

lemma sink_invI:
  assumes "set (work_queue st) \<subseteq> set devices"
    and "list_all (thread_rows_ok cfg devices) (threads st)"
    and "lock_inv st"
    and "list_all (from_task cfg devices) rows"
    and "csvfile st = fieldnames @ concat (map dict_to_list rows) @ in_progress st"
  shows "sink_inv cfg devices st"
  unfolding sink_inv_def using assms by blast

lemma sink_invD:
  assumes "sink_inv cfg devices st"
  shows "set (work_queue st) \<subseteq> set devices"
    and "list_all (thread_rows_ok cfg devices) (threads st)"
    and "lock_inv st"
    and "\<exists>rows. list_all (from_task cfg devices) rows \<and>
        csvfile st = fieldnames @ concat (map dict_to_list rows) @ in_progress st"
  using assms unfolding sink_inv_def by blast+

text \<open>A step of a thread that is outside the writer and stays outside.\<close>

lemma sink_inv_outside:
  assumes inv: "sink_inv cfg devices st"
    and i: "i < length (threads st)"
    and nw: "\<not> is_writing (threads st ! i)"
    and nt: "\<not> is_writing t"
    and ok: "thread_rows_ok cfg devices t"
    and same: "lock st' = lock st" "csvfile st' = csvfile st" "threads st' = threads st"
    and q: "set (work_queue st') \<subseteq> set devices"
  shows "sink_inv cfg devices (set_thread i t st')"
proof -
  note B = sink_invD(2) [OF inv] and C = sink_invD(3) [OF inv]
  from sink_invD(4) [OF inv] obtain rows where R: "list_all (from_task cfg devices) rows"
    and F: "csvfile st = fieldnames @ concat (map dict_to_list rows) @ in_progress st"
    by blast
  let ?st = "set_thread i t st'"
  have th: "threads ?st = (threads st)[i := t]" by (simp add: same)
  have lk: "lock ?st = lock st" by (simp add: same)
  have cf: "csvfile ?st = csvfile st" by (simp add: same)
  have wq: "work_queue ?st = work_queue st'" by simp
  have len: "length (threads ?st) = length (threads st)" unfolding th by simp
  have other: "\<And>j. j \<noteq> i \<Longrightarrow> threads ?st ! j = threads st ! j" unfolding th by simp
  have self: "threads ?st ! i = t" unfolding th using i by simp
  have B': "list_all (thread_rows_ok cfg devices) (threads ?st)"
    unfolding th using B ok by (rule list_all_update)
  have C': "lock_inv ?st"
  proof (cases "lock st")
    case None
    have "list_all (\<lambda>t. \<not> is_writing t) (threads st)"
      using C None by (simp add: lock_inv_def)
    then have "list_all (\<lambda>t. \<not> is_writing t) (threads ?st)"
      unfolding th using nt by (rule list_all_update)
    with None lk show ?thesis by (intro lock_invI_free) simp_all
  next
    case (Some h)
    from lock_inv_holder [OF C Some] have h: "h < length (threads st)"
      and hw: "is_writing (threads st ! h)" by blast+
    from hw nw have ne: "h \<noteq> i" by blast
    show ?thesis
    proof (rule lock_invI_held [of _ h])
      show "lock ?st = Some h" using lk Some by simp
      show "h < length (threads ?st)" using h len by simp
      show "is_writing (threads ?st ! h)" using hw other [OF ne] by simp
    next
      fix j assume j: "j < length (threads ?st)" and w: "is_writing (threads ?st ! j)"
      have "j \<noteq> i"
      proof
        assume "j = i"
        with w self nt show False by simp
      qed
      with w other have "is_writing (threads st ! j)" by simp
      moreover from j len have "j < length (threads st)" by simp
      ultimately show "j = h" using lock_inv_only_holder [OF C Some] by blast
    qed
  qed
  have P: "in_progress ?st = in_progress st"
  proof (cases "lock st")
    case None
    with lk show ?thesis by (simp add: in_progress_def)
  next
    case (Some h)
    from lock_inv_holder [OF C Some] nw have "h \<noteq> i" by blast
    from other [OF this] Some lk show ?thesis by (simp add: in_progress_def)
  qed
  have F': "csvfile ?st = fieldnames @ concat (map dict_to_list rows) @ in_progress ?st"
    unfolding P cf by (rule F)
  have Q: "set (work_queue ?st) \<subseteq> set devices" unfolding wq by (rule q)
  from Q B' C' R F' show ?thesis by (rule sink_invI)
qed

lemma sink_inv_thread:
  assumes "sink_inv cfg devices st" and "i < length (threads st)"
  shows "thread_rows_ok cfg devices (threads st ! i)"
  using sink_invD(2) [OF assms(1)] assms(2) by (simp add: list_all_length)

lemma sink_inv_acquire:
  assumes inv: "sink_inv cfg devices st"
    and i: "i < length (threads st)"
    and at: "threads st ! i = Running ip (Wrote row # evs) r"
    and free: "lock st = None"
  shows "sink_inv cfg devices
           (set_thread i (Writing ip row (dict_to_list row) evs r) (st\<lparr>lock := Some i\<rparr>))"
proof -
  let ?w = "Writing ip row (dict_to_list row) evs r"
  let ?st = "set_thread i ?w (st\<lparr>lock := Some i\<rparr>)"
  note A = sink_invD(1) [OF inv] and B = sink_invD(2) [OF inv] and C = sink_invD(3) [OF inv]
  from sink_invD(4) [OF inv] obtain rows where R: "list_all (from_task cfg devices) rows"
    and F: "csvfile st = fieldnames @ concat (map dict_to_list rows) @ in_progress st"
    by blast
  have th: "threads ?st = (threads st)[i := ?w]" by simp
  have lk: "lock ?st = Some i" by simp
  have cf: "csvfile ?st = csvfile st" by simp
  have wq: "work_queue ?st = work_queue st" by simp
  have len: "length (threads ?st) = length (threads st)" unfolding th by simp
  have other: "\<And>j. j \<noteq> i \<Longrightarrow> threads ?st ! j = threads st ! j" unfolding th by simp
  have self: "threads ?st ! i = ?w" unfolding th using i by simp
  have "thread_rows_ok cfg devices (Running ip (Wrote row # evs) r)"
    using sink_inv_thread [OF inv i] unfolding at .
  then have ok: "thread_rows_ok cfg devices ?w" by simp
  have B': "list_all (thread_rows_ok cfg devices) (threads ?st)"
    unfolding th using B ok by (rule list_all_update)
  have C': "lock_inv ?st"
  proof (rule lock_invI_held [of _ i])
    show "lock ?st = Some i" by (rule lk)
    show "i < length (threads ?st)" using i len by simp
    show "is_writing (threads ?st ! i)" unfolding self by simp
  next
    fix j assume j: "j < length (threads ?st)" and w: "is_writing (threads ?st ! j)"
    show "j = i"
    proof (rule ccontr)
      assume ne: "j \<noteq> i"
      from w other [OF ne] have "is_writing (threads st ! j)" by simp
      moreover from j len have "j < length (threads st)" by simp
      ultimately show False using lock_inv_free [OF C free] by blast
    qed
  qed
  have P: "in_progress ?st = []"
    unfolding in_progress_held [OF lk] self by simp
  have F': "csvfile ?st = fieldnames @ concat (map dict_to_list rows) @ in_progress ?st"
    unfolding P cf using F in_progress_free [OF free] by simp
  have Q: "set (work_queue ?st) \<subseteq> set devices" unfolding wq by (rule A)
  from Q B' C' R F' show ?thesis by (rule sink_invI)
qed

lemma drop_step:
  assumes "Suc (length cs) \<le> length cells"
    and "drop (length cells - Suc (length cs)) cells = c # cs"
  shows "drop (length cells - length cs) cells = cs \<and>
         take (length cells - length cs) cells =
           take (length cells - Suc (length cs)) cells @ [c]"
proof -
  define k where "k = length cells - Suc (length cs)"
  have s: "length cells - length cs = Suc k" using assms(1) by (simp add: k_def)
  have kl: "k < length cells" using assms(1) by (simp add: k_def)
  have d: "drop k cells = c # cs" using assms(2) by (simp add: k_def)
  have "drop (Suc k) cells = tl (drop k cells)" by (simp add: drop_Suc tl_drop)
  then have d': "drop (Suc k) cells = cs" unfolding d by simp
  have "cells ! k = hd (drop k cells)" using kl by (simp add: hd_drop_conv_nth)
  then have n: "cells ! k = c" unfolding d by simp
  have "take (Suc k) cells = take k cells @ [cells ! k]"
    using kl by (rule take_Suc_conv_app_nth)
  then have t: "take (Suc k) cells = take k cells @ [c]" unfolding n .
  show ?thesis unfolding s using d' t unfolding k_def by blast
qed

lemma sink_inv_write:
  assumes inv: "sink_inv cfg devices st"
    and i: "i < length (threads st)"
    and at: "threads st ! i = Writing ip row (c # cs) evs r"
  shows "sink_inv cfg devices
           (set_thread i (Writing ip row cs evs r) (st\<lparr>csvfile := csvfile st @ [c]\<rparr>))"
proof -
  let ?w = "Writing ip row cs evs r"
  let ?st = "set_thread i ?w (st\<lparr>csvfile := csvfile st @ [c]\<rparr>)"
  note A = sink_invD(1) [OF inv] and B = sink_invD(2) [OF inv] and C = sink_invD(3) [OF inv]
  from sink_invD(4) [OF inv] obtain rows where R: "list_all (from_task cfg devices) rows"
    and F: "csvfile st = fieldnames @ concat (map dict_to_list rows) @ in_progress st"
    by blast
  have held: "lock st = Some i"
    by (rule lock_inv_writer [OF C i]) (simp add: at)
  have th: "threads ?st = (threads st)[i := ?w]" by simp
  have lk: "lock ?st = Some i" using held by simp
  have cf: "csvfile ?st = csvfile st @ [c]" by simp
  have wq: "work_queue ?st = work_queue st" by simp
  have len: "length (threads ?st) = length (threads st)" unfolding th by simp
  have other: "\<And>j. j \<noteq> i \<Longrightarrow> threads ?st ! j = threads st ! j" unfolding th by simp
  have self: "threads ?st ! i = ?w" unfolding th using i by simp
  have old: "thread_rows_ok cfg devices (Writing ip row (c # cs) evs r)"
    using sink_inv_thread [OF inv i] unfolding at .
  then have ft: "from_task cfg devices row"
    and le: "Suc (length cs) \<le> length (dict_to_list row)"
    and dr: "drop (length (dict_to_list row) - Suc (length cs)) (dict_to_list row) = c # cs"
    and rest: "list_all (from_task cfg devices) (rows_of evs)"
    by simp_all
  note ds = drop_step [OF le dr]
  have ok: "thread_rows_ok cfg devices ?w"
    using ft le rest ds by simp
  have B': "list_all (thread_rows_ok cfg devices) (threads ?st)"
    unfolding th using B ok by (rule list_all_update)
  have C': "lock_inv ?st"
  proof (rule lock_invI_held [of _ i])
    show "lock ?st = Some i" by (rule lk)
    show "i < length (threads ?st)" using i len by simp
    show "is_writing (threads ?st ! i)" unfolding self by simp
  next
    fix j assume j: "j < length (threads ?st)" and w: "is_writing (threads ?st ! j)"
    show "j = i"
    proof (rule ccontr)
      assume ne: "j \<noteq> i"
      from w other [OF ne] have "is_writing (threads st ! j)" by simp
      moreover from j len have "j < length (threads st)" by simp
      ultimately have "j = i" using lock_inv_only_holder [OF C held] by blast
      with ne show False by blast
    qed
  qed
  have Pold: "in_progress st =
      take (length (dict_to_list row) - Suc (length cs)) (dict_to_list row)"
    unfolding in_progress_held [OF held] at by simp
  have Pnew: "in_progress ?st = take (length (dict_to_list row) - length cs) (dict_to_list row)"
    unfolding in_progress_held [OF lk] self by simp
  have F': "csvfile ?st = fieldnames @ concat (map dict_to_list rows) @ in_progress ?st"
    unfolding cf Pnew using F Pold ds by simp
  have Q: "set (work_queue ?st) \<subseteq> set devices" unfolding wq by (rule A)
  from Q B' C' R F' show ?thesis by (rule sink_invI)
qed

lemma sink_inv_release:
  assumes inv: "sink_inv cfg devices st"
    and i: "i < length (threads st)"
    and at: "threads st ! i = Writing ip row [] evs r"
  shows "sink_inv cfg devices (set_thread i (Running ip evs r) (st\<lparr>lock := None\<rparr>))"
proof -
  let ?w = "Running ip evs r"
  let ?st = "set_thread i ?w (st\<lparr>lock := None\<rparr>)"
  note A = sink_invD(1) [OF inv] and B = sink_invD(2) [OF inv] and C = sink_invD(3) [OF inv]
  from sink_invD(4) [OF inv] obtain rows where R: "list_all (from_task cfg devices) rows"
    and F: "csvfile st = fieldnames @ concat (map dict_to_list rows) @ in_progress st"
    by blast
  have held: "lock st = Some i"
    by (rule lock_inv_writer [OF C i]) (simp add: at)
  have th: "threads ?st = (threads st)[i := ?w]" by simp
  have lk: "lock ?st = None" by simp
  have cf: "csvfile ?st = csvfile st" by simp
  have wq: "work_queue ?st = work_queue st" by simp
  have len: "length (threads ?st) = length (threads st)" unfolding th by simp
  have other: "\<And>j. j \<noteq> i \<Longrightarrow> threads ?st ! j = threads st ! j" unfolding th by simp
  have self: "threads ?st ! i = ?w" unfolding th using i by simp
  have old: "thread_rows_ok cfg devices (Writing ip row [] evs r)"
    using sink_inv_thread [OF inv i] unfolding at .
  then have ft: "from_task cfg devices row"
    and rest: "list_all (from_task cfg devices) (rows_of evs)"
    by simp_all
  have ok: "thread_rows_ok cfg devices ?w" using rest by simp
  have B': "list_all (thread_rows_ok cfg devices) (threads ?st)"
    unfolding th using B ok by (rule list_all_update)
  have nw: "\<And>j. j < length (threads ?st) \<Longrightarrow> \<not> is_writing (threads ?st ! j)"
  proof
    fix j assume j: "j < length (threads ?st)" and w: "is_writing (threads ?st ! j)"
    have ne: "j \<noteq> i"
    proof
      assume "j = i"
      with w self show False by simp
    qed
    from w other [OF ne] have "is_writing (threads st ! j)" by simp
    moreover from j len have "j < length (threads st)" by simp
    ultimately have "j = i" using lock_inv_only_holder [OF C held] by blast
    with ne show False by blast
  qed
  have C': "lock_inv ?st"
    by (rule lock_invI_free [OF lk]) (simp add: list_all_length nw del: threads_set_thread)
  have Pold: "in_progress st = dict_to_list row"
    unfolding in_progress_held [OF held] at by simp
  have R': "list_all (from_task cfg devices) (rows @ [row])" using R ft by simp
  have F': "csvfile ?st =
      fieldnames @ concat (map dict_to_list (rows @ [row])) @ in_progress ?st"
    unfolding cf in_progress_free [OF lk] using F Pold by simp
  have Q: "set (work_queue ?st) \<subseteq> set devices" unfolding wq by (rule A)
  from Q B' C' R' F' show ?thesis by (rule sink_invI)
qed

lemma rows_ok_tail:
  assumes "thread_rows_ok cfg devices (Running ip (ev # evs) r)"
  shows "thread_rows_ok cfg devices (Running ip evs r)"
  using assms by (cases ev) simp_all

lemma sink_inv_do_event:
  assumes inv: "sink_inv cfg devices st"
    and i: "i < length (threads st)"
    and at: "threads st ! i = Running ip (ev # evs) r"
  shows "sink_inv cfg devices (do_event i ip ev evs r st)"
proof -
  have nw: "\<not> is_writing (threads st ! i)" unfolding at by simp
  have "thread_rows_ok cfg devices (Running ip (ev # evs) r)"
    using sink_inv_thread [OF inv i] unfolding at .
  then have ok: "thread_rows_ok cfg devices (Running ip evs r)" by (rule rows_ok_tail)
  note A = sink_invD(1) [OF inv]
  have plain: "sink_inv cfg devices (set_thread i (Running ip evs r) st)"
    by (rule sink_inv_outside [OF inv i nw _ ok]) (simp_all add: A)
  show ?thesis
  proof (cases ev)
    case (Wrote row)
    show ?thesis
    proof (cases "lock st")
      case None
      from sink_inv_acquire [OF inv i at [unfolded Wrote] None] Wrote None
      show ?thesis by simp
    next
      case (Some holder)
      with Wrote inv show ?thesis by simp
    qed
  next
    case TaskDone
    show ?thesis
    proof (cases "unfinished_tasks st = 0")
      case True
      have "sink_inv cfg devices
          (set_thread i (Died (Raise ValueError ''task_done() called too many times'')) st)"
        by (rule sink_inv_outside [OF inv i nw]) (simp_all add: A)
      with TaskDone True show ?thesis by simp
    next
      case False
      have "sink_inv cfg devices
          (set_thread i (Running ip evs r)
             (st\<lparr>unfinished_tasks := unfinished_tasks st - 1,
                 marked_done := marked_done st @ [ip]\<rparr>))"
        by (rule sink_inv_outside [OF inv i nw _ ok]) (simp_all add: A)
      with TaskDone False show ?thesis by simp
    qed
  next
    case PbarUpdate
    have "sink_inv cfg devices (set_thread i (Running ip evs r) (st\<lparr>pbar := pbar st + 1\<rparr>))"
      by (rule sink_inv_outside [OF inv i nw _ ok]) (simp_all add: A)
    with PbarUpdate show ?thesis by simp
  next
    case Connected
    with plain show ?thesis by simp
  next
    case (Sent c)
    with plain show ?thesis by simp
  next
    case Prompt
    with plain show ?thesis by simp
  next
    case Disconnected
    with plain show ?thesis by simp
  qed
qed

lemma body_rows_from_task:
  assumes "ip \<in> set devices"
    and "device_worker_body (connect cfg) (username cfg) (password cfg) (secret cfg) ip = (evs, r)"
  shows "list_all (from_task cfg devices) (rows_of evs)"
proof -
  have eq: "rows_of evs = task_rows (connect cfg) (username cfg) (password cfg) (secret cfg) ip"
    using assms(2) by (simp add: task_rows_def)
  have "\<And>x. x \<in> set (rows_of evs) \<Longrightarrow> from_task cfg devices x"
  proof -
    fix x assume "x \<in> set (rows_of evs)"
    then have "x \<in> set (task_rows (connect cfg) (username cfg) (password cfg) (secret cfg) ip)"
      unfolding eq .
    with assms(1) show "from_task cfg devices x" unfolding from_task_iff by (rule bexI [rotated])
  qed
  then show ?thesis by (simp add: list_all_iff)
qed

lemma sink_inv_step:
  assumes inv: "sink_inv cfg devices st"
  shows "sink_inv cfg devices (step cfg i st)"
proof (cases "length (threads st) \<le> i")
  case True
  with inv show ?thesis by (simp add: step_def)
next
  case False
  then have i: "i < length (threads st)" by simp
  note A = sink_invD(1) [OF inv]
  show ?thesis
  proof (cases "threads st ! i")
    case AtEmptyCheck
    have "sink_inv cfg devices (set_thread i (if work_queue st = [] then Exited else AtGet) st)"
      by (rule sink_inv_outside [OF inv i]) (simp_all add: AtEmptyCheck A)
    with False AtEmptyCheck show ?thesis by (simp add: step_def)
  next
    case AtGet
    show ?thesis
    proof (cases "work_queue st")
      case Nil
      with False AtGet inv show ?thesis by (simp add: step_def)
    next
      case (Cons ip rest)
      obtain evs r where b: "device_worker_body (connect cfg) (username cfg) (password cfg)
          (secret cfg) ip = (evs, r)"
        by (cases "device_worker_body (connect cfg) (username cfg) (password cfg) (secret cfg) ip")
      from A Cons have ipd: "ip \<in> set devices" and restd: "set rest \<subseteq> set devices" by simp_all
      have ok: "thread_rows_ok cfg devices (Running ip evs r)"
        using body_rows_from_task [OF ipd b] by simp
      have "sink_inv cfg devices
          (set_thread i (Running ip evs r)
             (st\<lparr>work_queue := rest, popped := popped st @ [ip]\<rparr>))"
        by (rule sink_inv_outside [OF inv i _ _ ok]) (simp_all add: AtGet restd)
      with False AtGet Cons b show ?thesis by (simp add: step_def)
    qed
  next
    case (Running ip evs r)
    show ?thesis
    proof (cases evs)
      case Nil
      show ?thesis
      proof (cases r)
        case (Inl e)
        have "sink_inv cfg devices (set_thread i (Died e) st)"
          by (rule sink_inv_outside [OF inv i]) (simp_all add: Running A)
        with False Running Nil Inl show ?thesis by (simp add: step_def)
      next
        case (Inr u)
        have "sink_inv cfg devices (set_thread i AtEmptyCheck st)"
          by (rule sink_inv_outside [OF inv i]) (simp_all add: Running A)
        with False Running Nil Inr show ?thesis by (simp add: step_def)
      qed
    next
      case (Cons ev evs')
      from sink_inv_do_event [OF inv i Running [unfolded Cons]] False Running Cons
      show ?thesis by (simp add: step_def)
    qed
  next
    case (Writing ip row left evs r)
    show ?thesis
    proof (cases left)
      case Nil
      from sink_inv_release [OF inv i Writing [unfolded Nil]] False Writing Nil
      show ?thesis by (simp add: step_def)
    next
      case (Cons c cs)
      from sink_inv_write [OF inv i Writing [unfolded Cons]] False Writing Cons
      show ?thesis by (simp add: step_def)
    qed
  next
    case Exited
    with False inv show ?thesis by (simp add: step_def)
  next
    case (Died e)
    with False inv show ?thesis by (simp add: step_def)
  qed
qed

lemma sink_inv_start: "sink_inv cfg devices (main_start devices)"
proof (rule sink_invI [where rows = "[]"])
  show "set (work_queue (main_start devices)) \<subseteq> set devices" by (simp add: main_start_def)
  show "list_all (thread_rows_ok cfg devices) (threads (main_start devices))"
    by (simp add: main_start_def list_all_iff)
  show "lock_inv (main_start devices)"
    by (rule lock_invI_free) (simp_all add: main_start_def list_all_iff)
  show "list_all (from_task cfg devices) []" by simp
  show "csvfile (main_start devices) =
      fieldnames @ concat (map dict_to_list []) @ in_progress (main_start devices)"
    by (simp add: main_start_def in_progress_def)
qed

lemma sink_inv_run:
  "sink_inv cfg devices st \<Longrightarrow> sink_inv cfg devices (run cfg sched st)"
  by (induction sched arbitrary: st) (simp_all add: sink_inv_step)

text \<open>
  Claim C9. At every point of every run, under every schedule: a worker that is inside the
  write of a row holds the writer's lock, so no two workers are inside at once, and the
  lock is held by nobody else. The file consists of the header, then whole rows, each the
  twelve cells of a row that the loop body of one of the devices handed to
  \<^verbatim>\<open>writerow\<close>, and then the cells written so far of the row of the worker that holds the
  lock; these cells followed by the cells still to be written are that row. So the cells
  of two rows are never interleaved, however the threads are scheduled between two cells.
\<close>

theorem rows_never_interleave:
  "(\<forall>j < length (threads (run cfg sched (main_start devices))).
      is_writing (threads (run cfg sched (main_start devices)) ! j) \<longrightarrow>
      lock (run cfg sched (main_start devices)) = Some j) \<and>
   (\<forall>i. lock (run cfg sched (main_start devices)) = Some i \<longrightarrow>
      i < length (threads (run cfg sched (main_start devices))) \<and>
      is_writing (threads (run cfg sched (main_start devices)) ! i)) \<and>
   (\<exists>rows. list_all (from_task cfg devices) rows \<and>
      csvfile (run cfg sched (main_start devices)) =
        fieldnames @ concat (map dict_to_list rows) @
        in_progress (run cfg sched (main_start devices))) \<and>
   (lock (run cfg sched (main_start devices)) = None \<longrightarrow>
      in_progress (run cfg sched (main_start devices)) = []) \<and>
   (\<forall>i ip row left evs r.
      lock (run cfg sched (main_start devices)) = Some i \<and>
      threads (run cfg sched (main_start devices)) ! i = Writing ip row left evs r \<longrightarrow>
      in_progress (run cfg sched (main_start devices)) @ left = dict_to_list row \<and>
      from_task cfg devices row)"
proof -
  define st where "st = run cfg sched (main_start devices)"
  have inv: "sink_inv cfg devices st"
    unfolding st_def by (rule sink_inv_run [OF sink_inv_start])
  note C = sink_invD(3) [OF inv]
  have a: "\<forall>j < length (threads st). is_writing (threads st ! j) \<longrightarrow> lock st = Some j"
    using lock_inv_writer [OF C] by blast
  have b: "\<forall>i. lock st = Some i \<longrightarrow> i < length (threads st) \<and> is_writing (threads st ! i)"
    using lock_inv_holder [OF C] by blast
  note c = sink_invD(4) [OF inv]
  have d: "lock st = None \<longrightarrow> in_progress st = []"
    using in_progress_free by blast
  have e: "\<forall>i ip row left evs r.
      lock st = Some i \<and> threads st ! i = Writing ip row left evs r \<longrightarrow>
      in_progress st @ left = dict_to_list row \<and> from_task cfg devices row"
  proof (intro allI impI)
    fix i ip row left evs r
    assume h: "lock st = Some i \<and> threads st ! i = Writing ip row left evs r"
    then have held: "lock st = Some i" and at: "threads st ! i = Writing ip row left evs r"
      by blast+
    from lock_inv_holder [OF C held] have i: "i < length (threads st)" by blast
    have "thread_rows_ok cfg devices (Writing ip row left evs r)"
      using sink_inv_thread [OF inv i] unfolding at .
    then have ft: "from_task cfg devices row"
      and dr: "drop (length (dict_to_list row) - length left) (dict_to_list row) = left"
      by simp_all
    have "in_progress st = take (length (dict_to_list row) - length left) (dict_to_list row)"
      unfolding in_progress_held [OF held] at by simp
    then have "in_progress st @ left =
        take (length (dict_to_list row) - length left) (dict_to_list row) @
        drop (length (dict_to_list row) - length left) (dict_to_list row)"
      using dr by simp
    then have "in_progress st @ left = dict_to_list row" by simp
    with ft show "in_progress st @ left = dict_to_list row \<and> from_task cfg devices row"
      by blast
  qed
  show ?thesis
    using a b c d e unfolding st_def by (intro conjI)
qed

lemma writing_state:
  "threads (run example_cfg writing_schedule (main_start race_devices)) ! 0 =
     Writing ''10.0.0.2'' (failure_row ''10.0.0.2'' ''Authentication Failed'')
       [''N/A'', ''N/A'', ''Authentication Failed'', ''N/A'', ''N/A'', ''N/A'', ''N/A'', ''N/A'',
        ''N/A'', ''N/A'']
       [TaskDone, PbarUpdate] (Inr ()) \<and>
   threads (run example_cfg writing_schedule (main_start race_devices)) ! 1 =
     Running ''10.0.0.3''
       [Wrote (failure_row ''10.0.0.3'' ''Connection Timeout''), TaskDone, PbarUpdate] (Inr ()) \<and>
   length (threads (run example_cfg writing_schedule (main_start race_devices))) = 2 \<and>
   csvfile (run example_cfg writing_schedule (main_start race_devices)) =
     fieldnames @ [''N/A'', ''10.0.0.2'']"
  by code_simp

theorem rows_never_interleave_witness:
  "lock (run example_cfg writing_schedule (main_start race_devices)) = Some 0 \<and>
   in_progress (run example_cfg writing_schedule (main_start race_devices)) =
     [''N/A'', ''10.0.0.2''] \<and>
   csvfile (run example_cfg writing_schedule (main_start race_devices)) =
     fieldnames @ [''N/A'', ''10.0.0.2'']"
proof -
  let ?st = "run example_cfg writing_schedule (main_start race_devices)"
  note t = rows_never_interleave [of example_cfg writing_schedule race_devices]
  have w: "is_writing (threads ?st ! 0)" using writing_state by simp
  have n: "(0::nat) < length (threads ?st)" using writing_state by simp
  from t [THEN conjunct1, rule_format, OF n w] have held: "lock ?st = Some 0" .
  have at: "threads ?st ! 0 =
     Writing ''10.0.0.2'' (failure_row ''10.0.0.2'' ''Authentication Failed'')
       [''N/A'', ''N/A'', ''Authentication Failed'', ''N/A'', ''N/A'', ''N/A'', ''N/A'', ''N/A'',
        ''N/A'', ''N/A'']
       [TaskDone, PbarUpdate] (Inr ())"
    using writing_state by blast
  from t [THEN conjunct2, THEN conjunct2, THEN conjunct2, THEN conjunct2, rule_format,
      OF conjI [OF held at]]
  have "in_progress ?st @
      [''N/A'', ''N/A'', ''Authentication Failed'', ''N/A'', ''N/A'', ''N/A'', ''N/A'', ''N/A'',
        ''N/A'', ''N/A''] =
      dict_to_list (failure_row ''10.0.0.2'' ''Authentication Failed'')"
    by blast
  then have p: "in_progress ?st = [''N/A'', ''10.0.0.2'']"
    by (simp add: dict_to_list_def fieldnames_def row_get_def failure_row_def restval_def
        csv_field_def)
  from held p writing_state show ?thesis by blast
qed

end
